(* ===== verification/Prelude.thy ===== *)
theory Prelude
  imports Main "HOL-Library.Sublist"
begin

text \<open>
  Shared ground of the development: the result type of the translator, the small
  monad its methods are written in, the string operations of the Rust standard
  library that the sources use, and the rule collections the component proofs
  draw on.

  Rust's \<open>String\<close>/\<open>&str\<close>/\<open>Vec<u8>\<close> are all modelled as \<open>string\<close>, read as the list
  of bytes of the UTF-8 encoding. Lengths and offsets therefore count bytes, as
  \<open>str::len\<close> and \<open>TextRange\<close> do.
\<close>

named_theorems tm_simps \<open>unfolding rules for monadic actions\<close>


section \<open>Actions that may fail\<close>

text \<open>
  A method of \<open>Context\<close> takes \<open>&mut self\<close> and may return \<open>Err(String)\<close> or panic
  (\<open>unwrap\<close>, \<open>expect\<close>, \<open>assert!\<close>, \<open>unreachable!\<close>, a slice out of range). Both end
  the translation, so the state reached at that point is never observed again
  and is not part of the result.
\<close>

datatype fail = Err string | Panic string

type_synonym ('s, 'a) tm = "'s \<Rightarrow> fail + 'a \<times> 's"

definition ret :: "'a \<Rightarrow> ('s, 'a) tm" where
  "ret x = (\<lambda>s. Inr (x, s))"

definition throw :: "fail \<Rightarrow> ('s, 'a) tm" where
  "throw e = (\<lambda>s. Inl e)"

definition bind :: "('s, 'a) tm \<Rightarrow> ('a \<Rightarrow> ('s, 'b) tm) \<Rightarrow> ('s, 'b) tm" where
  "bind m f = (\<lambda>s. case m s of Inl e \<Rightarrow> Inl e | Inr (x, s') \<Rightarrow> f x s')"

definition gets :: "('s \<Rightarrow> 'a) \<Rightarrow> ('s, 'a) tm" where
  "gets f = (\<lambda>s. Inr (f s, s))"

definition modify :: "('s \<Rightarrow> 's) \<Rightarrow> ('s, unit) tm" where
  "modify f = (\<lambda>s. Inr ((), f s))"

abbreviation skip :: "('s, unit) tm" where
  "skip \<equiv> ret ()"

text \<open>Statements in sequence, the result of an expression statement dropped.\<close>

definition void :: "('s, 'a) tm \<Rightarrow> ('s, unit) tm" where
  "void m = bind m (\<lambda>_. skip)"

fun seqs :: "('s, unit) tm list \<Rightarrow> ('s, unit) tm" where
  "seqs [] = skip"
| "seqs (m # ms) = bind m (\<lambda>_. seqs ms)"

text \<open>
  The loop with a first-iteration flag: \<open>if fi { fi = false } else { push(sep) }\<close>
  before each body.
\<close>

fun seqs_sep :: "bool \<Rightarrow> ('s, unit) tm \<Rightarrow> ('s, unit) tm list \<Rightarrow> ('s, unit) tm" where
  "seqs_sep fi sep [] = skip"
| "seqs_sep fi sep (m # ms) = seqs [if fi then skip else sep, m, seqs_sep False sep ms]"

lemma ret_apply [tm_simps]: "ret x s = Inr (x, s)"
  by (simp add: ret_def)

lemma throw_apply [tm_simps]: "throw e s = Inl e"
  by (simp add: throw_def)

lemma gets_apply [tm_simps]: "gets f s = Inr (f s, s)"
  by (simp add: gets_def)

lemma modify_apply [tm_simps]: "modify f s = Inr ((), f s)"
  by (simp add: modify_def)

lemma bind_apply:
  "bind m f s = (case m s of Inl e \<Rightarrow> Inl e | Inr (x, s') \<Rightarrow> f x s')"
  by (simp add: bind_def)

lemma bind_Inr: "m s = Inr (x, s') \<Longrightarrow> bind m f s = f x s'"
  by (simp add: bind_def)

lemma bind_Inl: "m s = Inl e \<Longrightarrow> bind m f s = Inl e"
  by (simp add: bind_def)

lemma bind_eq_Inr:
  "bind m f s = Inr (y, s'') \<longleftrightarrow> (\<exists>x s'. m s = Inr (x, s') \<and> f x s' = Inr (y, s''))"
  by (auto simp: bind_def split: sum.splits)

lemma bind_eq_Inl:
  "bind m f s = Inl e \<longleftrightarrow> m s = Inl e \<or> (\<exists>x s'. m s = Inr (x, s') \<and> f x s' = Inl e)"
  by (auto simp: bind_def split: sum.splits)

lemma bind_ret [simp]: "bind (ret x) f = f x"
  by (simp add: bind_def ret_def)

lemma bind_throw [simp]: "bind (throw e) f = throw e"
  by (simp add: bind_def throw_def)

lemma bind_cong:
  assumes "m = m'" and "\<And>x s s'. m' s = Inr (x, s') \<Longrightarrow> f x s' = f' x s'"
  shows "bind m f = bind m' f'"
  using assms by (intro ext) (auto simp: bind_def split: sum.splits)

lemma bind_assoc: "bind (bind m f) g = bind m (\<lambda>x. bind (f x) g)"
  by (rule ext) (auto simp: bind_def split: sum.splits)

lemma bind_ret_right [simp]: "bind m ret = m"
  by (rule ext) (auto simp: bind_def ret_def split: sum.splits)

lemma bind_skip: "bind (m :: ('s, unit) tm) (\<lambda>_. skip) = m"
  by (rule ext) (auto simp: bind_def ret_def split: sum.splits)

lemma seqs_append: "seqs (ms @ ns) = bind (seqs ms) (\<lambda>_. seqs ns)"
  by (induction ms) (simp_all add: bind_assoc)

lemma seqs_sep_append:
  "seqs_sep fi sep (ms @ ns) =
     bind (seqs_sep fi sep ms) (\<lambda>_. seqs_sep (fi \<and> ms = []) sep ns)"
  by (induction ms arbitrary: fi) (simp_all add: bind_assoc)


subsection \<open>Relational specifications\<close>

text \<open>
  \<open>tm_rel I R F m\<close>: from every state that satisfies \<open>I\<close>, \<open>m\<close> either ends in a state that
  again satisfies \<open>I\<close> and is related to the first by \<open>R\<close>, or fails with a failure
  that \<open>F\<close> admits. The rules follow the shape of an action, so a property of a
  method is proved from the properties of its parts.
\<close>

definition tm_rel ::
  "('s \<Rightarrow> bool) \<Rightarrow> ('s \<Rightarrow> 's \<Rightarrow> bool) \<Rightarrow> (fail \<Rightarrow> bool) \<Rightarrow> ('s, 'a) tm \<Rightarrow> bool" where
  "tm_rel I R F m \<longleftrightarrow>
     (\<forall>s. I s \<longrightarrow> (case m s of Inl e \<Rightarrow> F e | Inr (x, s') \<Rightarrow> I s' \<and> R s s'))"

lemma tm_relI:
  assumes "\<And>s e. I s \<Longrightarrow> m s = Inl e \<Longrightarrow> F e"
    and "\<And>s x s'. I s \<Longrightarrow> m s = Inr (x, s') \<Longrightarrow> I s' \<and> R s s'"
  shows "tm_rel I R F m"
  using assms by (auto simp: tm_rel_def split: sum.splits)

lemma tm_rel_Inr: "tm_rel I R F m \<Longrightarrow> m s = Inr (x, s') \<Longrightarrow> I s \<Longrightarrow> I s' \<and> R s s'"
  by (fastforce simp: tm_rel_def split: sum.splits)

lemma tm_rel_Inl: "tm_rel I R F m \<Longrightarrow> m s = Inl e \<Longrightarrow> I s \<Longrightarrow> F e"
  by (fastforce simp: tm_rel_def split: sum.splits)

lemma tm_rel_throw: "F e \<Longrightarrow> tm_rel I R F (throw e)"
  by (simp add: tm_rel_def tm_simps)

lemma tm_rel_modify: "(\<And>s. I s \<Longrightarrow> I (f s) \<and> R s (f s)) \<Longrightarrow> tm_rel I R F (modify f)"
  by (simp add: tm_rel_def tm_simps)

lemma tm_rel_weaken:
  assumes "tm_rel I R F m" and "\<And>s s'. R s s' \<Longrightarrow> R' s s'"
  shows "tm_rel I R' F m"
  using assms by (auto simp: tm_rel_def split: sum.splits)

text \<open>The rules for sequencing need a preorder, which is what this locale fixes.\<close>

locale preorder_rel =
  fixes R :: "'s \<Rightarrow> 's \<Rightarrow> bool"
  assumes rel_refl: "R s s"
    and rel_trans: "R s s' \<Longrightarrow> R s' s'' \<Longrightarrow> R s s''"
begin

lemma rel_ret: "tm_rel I R F (ret x)"
  by (simp add: tm_rel_def rel_refl tm_simps)

lemma rel_gets: "tm_rel I R F (gets f)"
  by (simp add: tm_rel_def rel_refl tm_simps)

lemma rel_bind_res:
  assumes "tm_rel I R F m" and "\<And>s x s'. m s = Inr (x, s') \<Longrightarrow> tm_rel I R F (f x)"
  shows "tm_rel I R F (bind m f)"
proof (rule tm_relI)
  fix s e assume "I s" "bind m f s = Inl e"
  then show "F e" unfolding bind_eq_Inl by (meson assms tm_rel_Inl tm_rel_Inr)
next
  fix s x s' assume "I s" "bind m f s = Inr (x, s')"
  then obtain y s1 where m: "m s = Inr (y, s1)" and f: "f y s1 = Inr (x, s')"
    by (auto simp: bind_eq_Inr)
  have "I s1 \<and> R s s1" using tm_rel_Inr [OF assms(1) m \<open>I s\<close>] .
  moreover then have "I s' \<and> R s1 s'" using tm_rel_Inr [OF assms(2) [OF m] f] by simp
  ultimately show "I s' \<and> R s s'" by (auto intro: rel_trans)
qed

lemma rel_bind:
  "tm_rel I R F m \<Longrightarrow> (\<And>x. tm_rel I R F (f x)) \<Longrightarrow> tm_rel I R F (bind m f)"
  by (rule rel_bind_res)

lemma rel_void: "tm_rel I R F m \<Longrightarrow> tm_rel I R F (void m)"
  unfolding void_def by (intro rel_bind rel_ret)

lemma rel_seqs: "(\<And>m. m \<in> set ms \<Longrightarrow> tm_rel I R F m) \<Longrightarrow> tm_rel I R F (seqs ms)"
  by (induction ms) (auto intro: rel_bind rel_ret)

lemma rel_seqs_sep:
  "tm_rel I R F sep \<Longrightarrow> (\<And>m. m \<in> set ms \<Longrightarrow> tm_rel I R F m) \<Longrightarrow> tm_rel I R F (seqs_sep fi sep ms)"
  by (induction ms arbitrary: fi) (auto intro!: rel_bind rel_ret)

lemmas rel_rules = rel_ret rel_gets rel_bind rel_void rel_seqs rel_seqs_sep tm_rel_throw

end


section \<open>Strings and numbers of the standard library\<close>

text \<open>\<open>Display\<close> of an unsigned integer.\<close>

definition digit_char :: "nat \<Rightarrow> char" where
  "digit_char d = char_of (48 + d)"

fun show_nat :: "nat \<Rightarrow> string" where
  "show_nat n = (if n < 10 then [digit_char n] else show_nat (n div 10) @ [digit_char (n mod 10)])"

declare show_nat.simps [simp del]

text \<open>\<open>str::replace\<close> with a one-character pattern, and \<open>str::strip_prefix\<close>.\<close>

fun replace_char :: "char \<Rightarrow> string \<Rightarrow> string \<Rightarrow> string" where
  "replace_char c t [] = []"
| "replace_char c t (x # xs) = (if x = c then t else [x]) @ replace_char c t xs"

fun strip_prefix :: "string \<Rightarrow> string \<Rightarrow> string option" where
  "strip_prefix [] s = Some s"
| "strip_prefix (p # ps) [] = None"
| "strip_prefix (p # ps) (c # cs) = (if p = c then strip_prefix ps cs else None)"

lemma strip_prefix_Some: "strip_prefix p s = Some t \<longleftrightarrow> s = p @ t"
  by (induction p s rule: strip_prefix.induct) auto

lemma replace_char_append:
  "replace_char c t (xs @ ys) = replace_char c t xs @ replace_char c t ys"
  by (induction xs) auto

lemma replace_char_absent: "c \<notin> set xs \<Longrightarrow> replace_char c t xs = xs"
  by (induction xs) auto

lemma set_replace_char:
  "set (replace_char c t xs) \<subseteq> (set xs - {c}) \<union> set t"
  by (induction xs) auto

text \<open>
  \<open>str::is_char_boundary\<close> and slicing: a range that is not ordered, ends beyond
  the string or cuts a multi-byte character panics.
\<close>

definition is_cont_byte :: "char \<Rightarrow> bool" where
  "is_cont_byte b \<longleftrightarrow> 128 \<le> (of_char b :: nat) \<and> (of_char b :: nat) < 192"

definition is_char_boundary :: "string \<Rightarrow> nat \<Rightarrow> bool" where
  "is_char_boundary s i \<longleftrightarrow>
     i = 0 \<or> i = length s \<or> (i < length s \<and> \<not> is_cont_byte (s ! i))"

definition str_slice :: "string \<Rightarrow> nat \<times> nat \<Rightarrow> string option" where
  "str_slice s r = (case r of (a, b) \<Rightarrow>
     if a \<le> b \<and> is_char_boundary s a \<and> is_char_boundary s b
     then Some (take (b - a) (drop a s)) else None)"

text \<open>\<open>String::from_utf8\<close>: the well-formed byte sequences of UTF-8.\<close>

fun utf8_ok :: "nat list \<Rightarrow> bool" where
  "utf8_ok [] = True"
| "utf8_ok (a # bs) =
    (if a < 128 then utf8_ok bs
     else if 194 \<le> a \<and> a \<le> 223 then
       (case bs of b # bs' \<Rightarrow> 128 \<le> b \<and> b < 192 \<and> utf8_ok bs' | _ \<Rightarrow> False)
     else if 224 \<le> a \<and> a \<le> 239 then
       (case bs of b # c # bs' \<Rightarrow>
          (if a = 224 then 160 else 128) \<le> b \<and> b < (if a = 237 then 160 else 192) \<and>
          128 \<le> c \<and> c < 192 \<and> utf8_ok bs' | _ \<Rightarrow> False)
     else if 240 \<le> a \<and> a \<le> 244 then
       (case bs of b # c # d # bs' \<Rightarrow>
          (if a = 240 then 144 else 128) \<le> b \<and> b < (if a = 244 then 144 else 192) \<and>
          128 \<le> c \<and> c < 192 \<and> 128 \<le> d \<and> d < 192 \<and> utf8_ok bs' | _ \<Rightarrow> False)
     else False)"

definition from_utf8 :: "string \<Rightarrow> string option" where
  "from_utf8 s = (if utf8_ok (map of_char s) then Some s else None)"

definition is_ascii :: "string \<Rightarrow> bool" where
  "is_ascii s \<longleftrightarrow> (\<forall>c \<in> set s. (of_char c :: nat) < 128)"

lemma is_ascii_simps [simp]:
  "is_ascii []" "is_ascii (c # s) \<longleftrightarrow> (of_char c :: nat) < 128 \<and> is_ascii s"
  "is_ascii (s @ t) \<longleftrightarrow> is_ascii s \<and> is_ascii t"
  by (auto simp: is_ascii_def)

lemma from_utf8_ascii: "is_ascii s \<Longrightarrow> from_utf8 s = Some s"
proof -
  assume "is_ascii s"
  then have "utf8_ok (map of_char s)" by (induction s) simp_all
  then show ?thesis by (simp add: from_utf8_def)
qed

text \<open>\<open>char::is_ascii_alphabetic\<close> and \<open>char::is_ascii_alphanumeric\<close>, on bytes.\<close>

definition is_ascii_alphabetic :: "char \<Rightarrow> bool" where
  "is_ascii_alphabetic c \<longleftrightarrow>
     (65 \<le> (of_char c :: nat) \<and> (of_char c :: nat) \<le> 90) \<or>
     (97 \<le> (of_char c :: nat) \<and> (of_char c :: nat) \<le> 122)"

definition is_ascii_alphanumeric :: "char \<Rightarrow> bool" where
  "is_ascii_alphanumeric c \<longleftrightarrow>
     is_ascii_alphabetic c \<or> (48 \<le> (of_char c :: nat) \<and> (of_char c :: nat) \<le> 57)"

text \<open>\<open>[String]::join\<close>\<close>

fun join :: "string \<Rightarrow> string list \<Rightarrow> string" where
  "join sep [] = []"
| "join sep [x] = x"
| "join sep (x # y # xs) = x @ sep @ join sep (y # xs)"

text \<open>\<open>Vec::dedup_by_key\<close>: of adjacent elements with the same key the first stays.\<close>

fun dedup_by_key :: "('a \<Rightarrow> 'k) \<Rightarrow> 'a list \<Rightarrow> 'a list" where
  "dedup_by_key f (x # y # xs) =
     (if f x = f y then dedup_by_key f (x # xs) else x # dedup_by_key f (y # xs))"
| "dedup_by_key f xs = xs"

lemma map_dedup_by_key: "map f (dedup_by_key f xs) = remdups_adj (map f xs)"
  by (induction f xs rule: dedup_by_key.induct) auto

lemma set_dedup_by_key_subset: "set (dedup_by_key f xs) \<subseteq> set xs"
  by (induction f xs rule: dedup_by_key.induct) auto

lemma sorted_remdups_adj_distinct:
  fixes xs :: "'a::linorder list"
  shows "sorted xs \<Longrightarrow> distinct (remdups_adj xs)"
  by (induction xs rule: remdups_adj.induct) (auto simp: less_le)

end
