(* ===== verification/Consts.thy ===== *)
theory Consts
  imports Prelude
begin

text \<open>
  The constants of \<open>src/consts.rs\<close>: the identifier categories, the names of the
  run-time objects the generated JavaScript refers to, and the table of the
  identifiers that are in scope at the top level of every Nix expression.
\<close>

section \<open>Identifier categories\<close>

datatype ident_categ =
    Literal string
  | AlBuiltin string
  | LambdaArg
  | LetLetVar
  | LetInScopeVar
  | WithScopeVar

section \<open>Names used by the generated code\<close>

definition NIX_BUILTINS_RT :: string where
  "NIX_BUILTINS_RT = ''nixBltiRT''"

definition NIX_OPERATORS :: string where
  "NIX_OPERATORS = ''nixOp''"

definition NIX_EXTRACT_SCOPE :: string where
  "NIX_EXTRACT_SCOPE = ''nixBlti.extractScope''"

definition NIX_OR_DEFAULT :: string where
  "NIX_OR_DEFAULT = ''nixBlti.orDefault''"

definition NIX_RUNTIME :: string where
  "NIX_RUNTIME = ''nixRt''"

definition NIX_IN_SCOPE :: string where
  "NIX_IN_SCOPE = ''nixInScope''"

definition NIX_LAMBDA_ARG_PFX :: string where
  "NIX_LAMBDA_ARG_PFX = ''nix__''"

definition NIX_LAMBDA_BOUND :: string where
  "NIX_LAMBDA_BOUND = ''nixBound''"

lemmas const_defs =
  NIX_BUILTINS_RT_def NIX_OPERATORS_def NIX_EXTRACT_SCOPE_def NIX_OR_DEFAULT_def
  NIX_RUNTIME_def NIX_IN_SCOPE_def NIX_LAMBDA_ARG_PFX_def NIX_LAMBDA_BOUND_def

section \<open>The default scope\<close>

text \<open>The byte \<open>CHR 0x27\<close> is the apostrophe of \<open>__foldl'\<close>.\<close>

definition DFL_VARS :: "(string \<times> ident_categ) list" where
  "DFL_VARS = [
   (''abort'', AlBuiltin ''abort''),
   (''__addErrorContext'', AlBuiltin ''__addErrorContext''),
   (''__add'', AlBuiltin ''__add''),
   (''__all'', AlBuiltin ''__all''),
   (''__any'', AlBuiltin ''__any''),
   (''__appendContext'', AlBuiltin ''__appendContext''),
   (''__attrNames'', AlBuiltin ''__attrNames''),
   (''__attrValues'', AlBuiltin ''__attrValues''),
   (''baseNameOf'', AlBuiltin ''baseNameOf''),
   (''__bitAnd'', AlBuiltin ''__bitAnd''),
   (''__bitOr'', AlBuiltin ''__bitOr''),
   (''__bitXor'', AlBuiltin ''__bitXor''),
   (''builtins'', Literal NIX_BUILTINS_RT),
   (''__catAttrs'', AlBuiltin ''__catAttrs''),
   (''__compareVersions'', AlBuiltin ''__compareVersions''),
   (''__concatLists'', AlBuiltin ''__concatLists''),
   (''__concatMap'', AlBuiltin ''__concatMap''),
   (''__concatStringsSep'', AlBuiltin ''__concatStringsSep''),
   (''__currentSystem'', AlBuiltin ''__currentSystem''),
   (''__currentTime'', AlBuiltin ''__currentTime''),
   (''__deepSeq'', AlBuiltin ''__deepSeq''),
   (''derivation'', AlBuiltin ''derivation''),
   (''derivationStrict'', AlBuiltin ''derivationStrict''),
   (''dirOf'', AlBuiltin ''dirOf''),
   (''__div'', AlBuiltin ''__div''),
   (''__elemAt'', AlBuiltin ''__elemAt''),
   (''__elem'', AlBuiltin ''__elem''),
   (''false'', Literal ''false''),
   (''fetchGit'', AlBuiltin ''fetchGit''),
   (''fetchMercurial'', AlBuiltin ''fetchMercurial''),
   (''fetchTarball'', AlBuiltin ''fetchTarball''),
   (''__fetchurl'', AlBuiltin ''__fetchurl''),
   (''__filter'', AlBuiltin ''__filter''),
   (''__filterSource'', AlBuiltin ''__filterSource''),
   (''__findFile'', AlBuiltin ''__findFile''),
   (''__foldl'' @ [CHR 0x27], AlBuiltin (''__foldl'' @ [CHR 0x27])),
   (''__fromJSON'', AlBuiltin ''__fromJSON''),
   (''fromTOML'', AlBuiltin ''fromTOML''),
   (''__functionArgs'', AlBuiltin ''__functionArgs''),
   (''__genericClosure'', AlBuiltin ''__genericClosure''),
   (''__genList'', AlBuiltin ''__genList''),
   (''__getAttr'', AlBuiltin ''__getAttr''),
   (''__getContext'', AlBuiltin ''__getContext''),
   (''__getEnv'', AlBuiltin ''__getEnv''),
   (''__hasAttr'', AlBuiltin ''__hasAttr''),
   (''__hasContext'', AlBuiltin ''__hasContext''),
   (''__hashFile'', AlBuiltin ''__hashFile''),
   (''__hashString'', AlBuiltin ''__hashString''),
   (''__head'', AlBuiltin ''__head''),
   (''import'', AlBuiltin ''import''),
   (''__intersectAttrs'', AlBuiltin ''__intersectAttrs''),
   (''__isAttrs'', AlBuiltin ''__isAttrs''),
   (''__isBool'', AlBuiltin ''__isBool''),
   (''__isFloat'', AlBuiltin ''__isFloat''),
   (''__isFunction'', AlBuiltin ''__isFunction''),
   (''__isInt'', AlBuiltin ''__isInt''),
   (''__isList'', AlBuiltin ''__isList''),
   (''isNull'', AlBuiltin ''isNull''),
   (''__isPath'', AlBuiltin ''__isPath''),
   (''__isString'', AlBuiltin ''__isString''),
   (''__langVersion'', AlBuiltin ''__langVersion''),
   (''__length'', AlBuiltin ''__length''),
   (''__lessThan'', AlBuiltin ''__lessThan''),
   (''__listToAttrs'', AlBuiltin ''__listToAttrs''),
   (''__mapAttrs'', AlBuiltin ''__mapAttrs''),
   (''map'', AlBuiltin ''map''),
   (''__match'', AlBuiltin ''__match''),
   (''__mul'', AlBuiltin ''__mul''),
   (''__nixPath'', AlBuiltin ''__nixPath''),
   (''__nixVersion'', AlBuiltin ''__nixVersion''),
   (''null'', Literal ''null''),
   (''__parseDrvName'', AlBuiltin ''__parseDrvName''),
   (''__partition'', AlBuiltin ''__partition''),
   (''__pathExists'', AlBuiltin ''__pathExists''),
   (''__path'', AlBuiltin ''__path''),
   (''placeholder'', AlBuiltin ''placeholder''),
   (''__readDir'', AlBuiltin ''__readDir''),
   (''__readFile'', AlBuiltin ''__readFile''),
   (''removeAttrs'', AlBuiltin ''removeAttrs''),
   (''__replaceStrings'', AlBuiltin ''__replaceStrings''),
   (''scopedImport'', AlBuiltin ''scopedImport''),
   (''__seq'', AlBuiltin ''__seq''),
   (''__sort'', AlBuiltin ''__sort''),
   (''__split'', AlBuiltin ''__split''),
   (''__splitVersion'', AlBuiltin ''__splitVersion''),
   (''__storeDir'', AlBuiltin ''__storeDir''),
   (''__storePath'', AlBuiltin ''__storePath''),
   (''__stringLength'', AlBuiltin ''__stringLength''),
   (''__sub'', AlBuiltin ''__sub''),
   (''__substring'', AlBuiltin ''__substring''),
   (''__tail'', AlBuiltin ''__tail''),
   (''throw'', AlBuiltin ''throw''),
   (''__toFile'', AlBuiltin ''__toFile''),
   (''__toJSON'', AlBuiltin ''__toJSON''),
   (''__toPath'', AlBuiltin ''__toPath''),
   (''toString'', AlBuiltin ''toString''),
   (''__toXML'', AlBuiltin ''__toXML''),
   (''__trace'', AlBuiltin ''__trace''),
   (''true'', Literal ''true''),
   (''__tryEval'', AlBuiltin ''__tryEval''),
   (''__typeOf'', AlBuiltin ''__typeOf''),
   (''__unsafeDiscardOutputDependency'', AlBuiltin ''__unsafeDiscardOutputDependency''),
   (''__unsafeDiscardStringContext'', AlBuiltin ''__unsafeDiscardStringContext''),
   (''__unsafeGetAttrPos'', AlBuiltin ''__unsafeGetAttrPos''),
   (''__valueSize'', AlBuiltin ''__valueSize'')
  ]"

end
