(* ===== verification/Rnix_View.thy ===== *)
theory Rnix_View
  imports Prelude "HOL-Library.Word"
begin

text \<open>
  The part of the crates outside the repository that the translator sees.

  \<open>rnix\<close> hands the translator a syntax tree. The translator looks at it only through
  \<open>ParsedType::try_from\<close>, the typed accessors (\<open>lambda()\<close>, \<open>entries()\<close>, \<open>from()\<close>, ...),
  \<open>Ident::cast\<close> and \<open>Pattern::cast\<close>. A node of the model is what these accessors return:
  one constructor per variant of \<open>ParsedType\<close>, one argument per accessor the translator
  calls, \<open>option\<close> where the accessor returns \<open>Option\<close>, a list where it returns an iterator.
  No completeness of the tree is built in: every accessor may return \<open>None\<close>.

  The functions of the other crates are the fields of the record \<open>ext\<close>, which
  every operation that needs one takes as an argument. What is assumed about
  them is stated where it is used.
\<close>

section \<open>Syntax trees\<close>

type_synonym text_range = "nat \<times> nat"

text \<open>
  The observations every node offers: \<open>kind().is_trivia()\<close>, \<open>text_range()\<close>, \<open>text()\<close>, and
  the \<open>Debug\<close> output, which occurs in some error messages.
\<close>

datatype meta =
  Meta (m_trivia: bool) (m_rng: text_range) (m_text: string) (m_dbg: string)

datatype ident = Ident (id_meta: meta) (as_str: string)

datatype 'n inherit_from = InheritFrom (inhf_rng: text_range) (inhf_inner: "'n option")

datatype 'n inherit =
  Inherit (inh_from: "'n inherit_from option") (inh_idents: "ident list")

text \<open>\<open>key().path()\<close> is the list of the key elements.\<close>

datatype 'n key_value =
  KeyValue (kv_rng: text_range) (kv_key: "'n list option") (kv_value: "'n option")

datatype 'n entry_holder =
  EntryHolder (entries: "'n key_value list") (inherits: "'n inherit list")

datatype 'n pat_entry = PatEntry (pe_name: "ident option") (pe_default: "'n option")

datatype 'n pattern =
  Pattern (pat_dbg: string) (pat_at: "ident option") (pat_entries: "'n pat_entry list")

datatype 'n str_part = SpLiteral string | SpAst text_range "'n option"

text \<open>
  The translator distinguishes \<open>BinOpKind::IsSet\<close> from the other operators, which
  it prints with \<open>{:?}\<close>.
\<close>

datatype binop_kind = IsSet | BinOther string

datatype unop_kind = Invert | Negate

text \<open>A double is its bit pattern. A path carries the \<open>Debug\<close> output of its anchor.\<close>

type_synonym f64 = "64 word"

datatype nix_value = VFloat f64 | VInteger int | VString string | VPath string string

text \<open>
  \<open>ParsedType\<close>, with \<open>PtUnparsed k\<close> for a node on which \<open>try_from\<close> fails, \<open>k\<close> being the
  \<open>Debug\<close> output of the kind in the error.
\<close>

datatype 'n parsed_type =
    PtUnparsed string
  | PtApply "'n option" "'n option"
  | PtAssert "'n option" "'n option"
  | PtAttrSet bool "'n entry_holder"
  | PtBinOp "binop_kind option" "'n option" "'n option"
  | PtDynamic "'n option"
  | PtError
  | PtIdent string
  | PtIfElse "'n option" "'n option" "'n option"
  | PtInherit "'n inherit"
  | PtInheritFrom "'n option"
  | PtKey "'n list"
  | PtKeyValue "'n key_value"
  | PtLambda "'n option" "'n option"
  | PtLegacyLet "'n entry_holder"
  | PtLetIn "'n entry_holder" "'n option"
  | PtList "'n list"
  | PtOrDefault "'n option" "'n option"
  | PtParen "'n option"
  | PtPathWithInterpol
  | PtPattern "'n pattern"
  | PtPatBind
  | PtPatEntry "'n pat_entry"
  | PtRoot "'n option"
  | PtSelect "'n option" "'n option"
  | PtStr "'n str_part list"
  | PtStrInterpol "'n option"
  | PtUnaryOp unop_kind "'n option"
  | PtValue "string + nix_value"
  | PtWith "'n option" "'n option"

datatype node = Node (node_meta: meta) (node_pt: "node parsed_type")

abbreviation text_range :: "node \<Rightarrow> text_range" where
  "text_range n \<equiv> m_rng (node_meta n)"

abbreviation node_text :: "node \<Rightarrow> string" where
  "node_text n \<equiv> m_text (node_meta n)"

abbreviation id_rng :: "ident \<Rightarrow> text_range" where
  "id_rng i \<equiv> m_rng (id_meta i)"

text \<open>\<open>Ident::cast\<close>, its inverse \<open>id.node()\<close>, and \<open>Pattern::cast\<close>.\<close>

definition cast_ident :: "node \<Rightarrow> ident option" where
  "cast_ident n = (case n of Node m p \<Rightarrow>
     (case p of PtIdent s \<Rightarrow> Some (Ident m s) | _ \<Rightarrow> None))"

definition ident_node :: "ident \<Rightarrow> node" where
  "ident_node i = (case i of Ident m s \<Rightarrow> Node m (PtIdent s))"

definition cast_pattern :: "node \<Rightarrow> node pattern option" where
  "cast_pattern n = (case n of Node m p \<Rightarrow>
     (case p of PtPattern q \<Rightarrow> Some q | _ \<Rightarrow> None))"

lemma cast_ident_node [simp]: "cast_ident (ident_node i) = Some i"
  by (cases i) (simp add: cast_ident_def ident_node_def)

lemma cast_ident_Some: "cast_ident n = Some i \<longleftrightarrow> n = ident_node i"
  by (cases n; cases i) (auto simp: cast_ident_def ident_node_def split: parsed_type.splits)


subsection \<open>Subtrees are smaller\<close>

text \<open>
  The recursion of the translator is on the nodes an accessor returns; these
  bounds are what makes it terminate.
\<close>

lemma size_option_mem: "x \<in> set_option o' \<Longrightarrow> f x < size_option f o'"
  by (cases o') auto

lemma size_list_mem: "x \<in> set xs \<Longrightarrow> f x \<le> size_list f xs"
  by (induction xs) auto

lemma size_inherit_from_mem: "x \<in> set_inherit_from i \<Longrightarrow> f x \<le> size_inherit_from f i"
  by (cases i) (auto dest: size_option_mem [of _ _ f])

lemma size_inherit_mem: "x \<in> set_inherit i \<Longrightarrow> f x \<le> size_inherit f i"
  by (cases i) (fastforce dest: size_inherit_from_mem [of _ _ f] split: option.splits)

lemma size_key_value_mem: "x \<in> set_key_value k \<Longrightarrow> f x \<le> size_key_value f k"
  by (cases k) (fastforce dest: size_option_mem [of _ _ f] size_list_mem [of _ _ f])

lemma size_entry_holder_mem:
  assumes "x \<in> set_entry_holder e" shows "f x \<le> size_entry_holder f e"
proof -
  obtain es hs where e: "e = EntryHolder es hs" by (cases e)
  from assms e consider k where "k \<in> set es" "x \<in> set_key_value k"
    | h where "h \<in> set hs" "x \<in> set_inherit h" by auto
  then show ?thesis
  proof cases
    case 1
    then have "f x \<le> size_list (size_key_value f) es"
      using size_key_value_mem [of x k f] size_list_mem [of k es "size_key_value f"] by simp
    then show ?thesis by (simp add: e)
  next
    case 2
    then have "f x \<le> size_list (size_inherit f) hs"
      using size_inherit_mem [of x h f] size_list_mem [of h hs "size_inherit f"] by simp
    then show ?thesis by (simp add: e)
  qed
qed

lemma size_pat_entry_mem: "x \<in> set_pat_entry p \<Longrightarrow> f x \<le> size_pat_entry f p"
  by (cases p) (auto dest: size_option_mem [of _ _ f])

lemma size_pattern_mem:
  assumes "x \<in> set_pattern p" shows "f x \<le> size_pattern f p"
proof -
  obtain d a es where p: "p = Pattern d a es" by (cases p)
  with assms obtain e where "e \<in> set es" "x \<in> set_pat_entry e" by auto
  then have "f x \<le> size_list (size_pat_entry f) es"
    using size_pat_entry_mem [of x e f] size_list_mem [of e es "size_pat_entry f"] by simp
  then show ?thesis by (simp add: p)
qed

lemma size_str_part_mem: "x \<in> set_str_part p \<Longrightarrow> f x \<le> size_str_part f p"
  by (cases p) (auto dest: size_option_mem [of _ _ f])

lemma size_str_parts_mem:
  assumes "p \<in> set ps" "x \<in> set_str_part p" shows "f x \<le> size_list (size_str_part f) ps"
  using size_str_part_mem [OF assms(2), of f] size_list_mem [OF assms(1), of "size_str_part f"]
  by simp

lemma size_parsed_type_mem: "x \<in> set_parsed_type p \<Longrightarrow> f x \<le> size_parsed_type f p"
  by (cases p)
    (fastforce dest: size_option_mem [of _ _ f] size_list_mem [of _ _ f]
       size_inherit_mem [of _ _ f] size_key_value_mem [of _ _ f] size_entry_holder_mem [of _ _ f]
       size_pattern_mem [of _ _ f] size_pat_entry_mem [of _ _ f] size_str_parts_mem [of _ _ _ f])+

lemma size_child [termination_simp]: "x \<in> set_parsed_type p \<Longrightarrow> size x < Suc (size_parsed_type size p)"
  by (simp add: size_parsed_type_mem le_imp_less_Suc)


section \<open>Functions of other crates\<close>

text \<open>
  \<open>serde_json\<close> values, as far as the sources build them. \<open>JObject\<close> keeps the order of
  its members (the feature \<open>preserve_order\<close> is on).
\<close>

datatype js_num = JsInt int | JsFloat f64

datatype json =
  JNumber js_num | JString string | JArray "json list" | JObject "(string \<times> json) list"

text \<open>
  \<open>'l\<close> is the type of \<open>linetrack::LineCache\<close>, \<open>'p\<close> that of \<open>linetrack::PosTrackerExtern\<close>.
  \<^item> \<open>json_to_string\<close>: \<open>serde_json::Value::to_string\<close>; \<open>number_from_f64\<close>: \<open>Number::from_f64\<close>;
  \<^item> \<open>vlq_encode\<close>: the bytes \<open>vlq::encode\<close> appends (writing to a \<open>Vec\<close> does not fail);
  \<^item> \<open>lc_new\<close>, \<open>lc_run\<close>: \<open>LineCache::new\<close> and \<open>run\<close>, the line and column of an offset;
  \<^item> \<open>pt_default\<close>, \<open>pt_update\<close>: \<open>PosTrackerExtern::default\<close> and \<open>update\<close>, of whose result
    the line offset and the column offset are used;
  \<^item> \<open>range_debug\<close>: \<open>Debug\<close> of \<open>TextRange\<close>;
  \<^item> \<open>rnix_parse\<close>: the messages of \<open>parsed.errors()\<close> and \<open>parsed.node()\<close>;
  \<^item> \<open>base64_encode\<close>: \<open>base64::encode\<close>.
\<close>

record ('l, 'p) ext =
  json_to_string :: "json \<Rightarrow> string"
  number_from_f64 :: "f64 \<Rightarrow> js_num option"
  vlq_encode :: "int \<Rightarrow> string"
  lc_new :: "string \<Rightarrow> 'l"
  lc_run :: "'l \<Rightarrow> nat \<Rightarrow> (nat \<times> nat) \<times> 'l"
  pt_default :: 'p
  pt_update :: "'p \<Rightarrow> string \<Rightarrow> nat \<Rightarrow> (int \<times> int) option \<times> 'p"
  range_debug :: "text_range \<Rightarrow> string"
  rnix_parse :: "string \<Rightarrow> string list \<times> node"
  base64_encode :: "string \<Rightarrow> string"

end
