(* ===== verification/Helpers.thy ===== *)
theory Helpers
  imports Consts Rnix_View
begin

text \<open>
  \<open>src/helpers.rs\<close> without the source map: string helpers, the await/lazy state
  that is passed down the tree, the translation context with its output buffer,
  and the wrapper \<open>lazyness_incoming\<close> that decides which \<open>await\<close> and which
  \<open>PLazy.from\<close> the code of a node gets.
\<close>

section \<open>String helpers\<close>

definition attrelem_raw_safe :: "string \<Rightarrow> bool" where
  "attrelem_raw_safe s \<longleftrightarrow>
     (case s of [] \<Rightarrow> False | c # _ \<Rightarrow> is_ascii_alphabetic c \<and> list_all is_ascii_alphanumeric s)"

definition escape_str :: "('l, 'p) ext \<Rightarrow> string \<Rightarrow> string" where
  "escape_str E s = json_to_string E (JString s)"

section \<open>Await and lazy state\<close>

datatype st = Did | Want | Nothing

datatype tr = Need | Forward | Flush | Force

datatype ladj = Front | Back

record stack_ctx =
  await_st :: st
  lazy_st :: st

definition mksctx :: "st \<Rightarrow> st \<Rightarrow> stack_ctx" where
  "mksctx a l = \<lparr>await_st = a, lazy_st = l\<rparr>"

lemma mksctx_sel [simp]: "await_st (mksctx a l) = a" "lazy_st (mksctx a l) = l"
  by (simp_all add: mksctx_def)

text \<open>The local \<open>tmp\<close> of \<open>merge_sttr\<close>, then the function.\<close>

fun merge_sttr_tmp :: "st \<Rightarrow> tr \<Rightarrow> st option" where
  "merge_sttr_tmp st Forward = Some st"
| "merge_sttr_tmp st Flush = (case st of Want \<Rightarrow> None | _ \<Rightarrow> Some st)"
| "merge_sttr_tmp st Force = (case st of Did \<Rightarrow> Some Did | _ \<Rightarrow> None)"
| "merge_sttr_tmp st Need = (case st of Did \<Rightarrow> Some Did | Want \<Rightarrow> None | Nothing \<Rightarrow> Some Want)"

definition merge_sttr :: "st \<Rightarrow> tr \<Rightarrow> st \<times> bool" where
  "merge_sttr st tr =
     (case merge_sttr_tmp st tr of None \<Rightarrow> (Did, True) | Some st' \<Rightarrow> (st', False))"

section \<open>The translation context\<close>

record ('l, 'p) ctx =
  inp :: string
  acc :: string
  vars :: "(string \<times> ident_categ) list"
  with_stack :: nat
  names :: "string list"
  mappings :: string
  line_cache :: 'l
  lp_src :: "nat \<times> nat"
  lp_dst :: 'p

type_synonym ('l, 'p, 'a) act = "(('l, 'p) ctx, 'a) tm"

definition push :: "string \<Rightarrow> ('l, 'p, unit) act" where
  "push x = modify (\<lambda>c. c\<lparr>acc := acc c @ x\<rparr>)"

lemma push_apply [tm_simps]: "push x c = Inr ((), c\<lparr>acc := acc c @ x\<rparr>)"
  by (simp add: push_def tm_simps)

lemma push_Nil: "push [] = skip"
  by (rule ext) (simp add: tm_simps)

lemma bind_push_push: "bind (push x) (\<lambda>_. bind (push y) f) = bind (push (x @ y)) f"
  by (rule ext) (simp add: bind_apply tm_simps)

text \<open>
  \<open>lta\<close> says that a lazy wrapper may stand directly below an \<open>await\<close>. The strings pushed
  before the inner action and the entries of \<open>finisher\<close> correspond one to one.
\<close>

definition lazyness_incoming ::
  "stack_ctx \<Rightarrow> tr \<Rightarrow> tr \<Rightarrow> ladj \<Rightarrow> (stack_ctx \<Rightarrow> ('l, 'p, 'a) act) \<Rightarrow> ('l, 'p, 'a) act" where
  "lazyness_incoming sctx await_tr lazy_tr adj inner =
    (let (await_st', do_await) = merge_sttr (await_st sctx) await_tr;
         (lazy_st', do_lazy) = merge_sttr (lazy_st sctx) lazy_tr;
         sctx1 = mksctx await_st' lazy_st';
         lta = (await_tr = Forward \<or> (await_tr = Flush \<and> adj = Front));
         wrap = (do_lazy \<and> ((\<not> do_await \<and> adj \<noteq> Back) \<or> lta));
         sctx2 = (if wrap then mksctx (if lta then Want else Did) Nothing else sctx1);
         finisher = (if do_await then ['')''] else []) @
                    (if wrap then '')'' # (if lta then [] else ['')'']) else [])
     in bind (seqs [if do_await then push ''(await '' else skip,
                    if wrap then push ''nixBlti.PLazy.from(async ()=>'' else skip,
                    if wrap \<and> \<not> lta then push ''(await '' else skip])
        (\<lambda>_. bind (inner sctx2)
        (\<lambda>r. bind (seqs (map push (rev finisher)))
        (\<lambda>_. ret r))))"

text \<open>
  Line numbers in messages: the newlines at offsets up to and including the
  start of the range. (A newline is a single byte, so counting characters by
  their byte offset and counting bytes agree.)
\<close>

definition txtrng_to_lineno :: "string \<Rightarrow> text_range \<Rightarrow> nat" where
  "txtrng_to_lineno input txtrng =
     length (filter (\<lambda>c. c = CHR 0x0A) (take (Suc (fst txtrng)) input))"

text \<open>
  \<open>rtv\<close> translates a child that the tree may lack. The translation of nodes it
  calls is the argument \<open>tn\<close>, here and in the other methods below \<open>translate_node\<close>.
\<close>

definition rtv ::
  "(stack_ctx \<Rightarrow> node \<Rightarrow> ('l, 'p, unit) act) \<Rightarrow>
   stack_ctx \<Rightarrow> text_range \<Rightarrow> node option \<Rightarrow> string \<Rightarrow> ('l, 'p, unit) act" where
  "rtv tn sctx txtrng x desc =
     (case x of
        None \<Rightarrow> bind (gets inp) (\<lambda>s.
          throw (Err (''line '' @ show_nat (txtrng_to_lineno s txtrng) @ '': '' @ desc @ '' missing'')))
      | Some n \<Rightarrow> tn sctx n)"

lemma rtv_cong [fundef_cong]:
  assumes "sctx = sctx'" "r = r'" "x = x'" "d = d'"
    and "\<And>s n. x' = Some n \<Longrightarrow> tn s n = tn' s n"
  shows "rtv tn sctx r x d = rtv tn' sctx' r' x' d'"
  using assms by (auto simp: rtv_def split: option.splits)


section \<open>The await/lazy state machine\<close>

text \<open>The openers and closers that \<open>lazyness_incoming\<close> puts around the inner text.\<close>

definition lazy_wraps :: "stack_ctx \<Rightarrow> tr \<Rightarrow> tr \<Rightarrow> ladj \<Rightarrow> bool" where
  "lazy_wraps sctx at lt adj \<longleftrightarrow>
     snd (merge_sttr (lazy_st sctx) lt) \<and>
     ((\<not> snd (merge_sttr (await_st sctx) at) \<and> adj \<noteq> Back) \<or>
      at = Forward \<or> (at = Flush \<and> adj = Front))"

definition lazy_open :: "stack_ctx \<Rightarrow> tr \<Rightarrow> tr \<Rightarrow> ladj \<Rightarrow> string" where
  "lazy_open sctx at lt adj =
     (if snd (merge_sttr (await_st sctx) at) then ''(await '' else []) @
     (if lazy_wraps sctx at lt adj then
        ''nixBlti.PLazy.from(async ()=>'' @
        (if at = Forward \<or> (at = Flush \<and> adj = Front) then [] else ''(await '')
      else [])"

definition lazy_close :: "stack_ctx \<Rightarrow> tr \<Rightarrow> tr \<Rightarrow> ladj \<Rightarrow> string" where
  "lazy_close sctx at lt adj =
     (if snd (merge_sttr (await_st sctx) at) then '')'' else []) @
     (if lazy_wraps sctx at lt adj then
        (if at = Forward \<or> (at = Flush \<and> adj = Front) then '')'' else ''))'')
      else [])"

definition lazy_inner :: "stack_ctx \<Rightarrow> tr \<Rightarrow> tr \<Rightarrow> ladj \<Rightarrow> stack_ctx" where
  "lazy_inner sctx at lt adj =
     (if lazy_wraps sctx at lt adj
      then mksctx (if at = Forward \<or> (at = Flush \<and> adj = Front) then Want else Did) Nothing
      else mksctx (fst (merge_sttr (await_st sctx) at)) (fst (merge_sttr (lazy_st sctx) lt)))"

text \<open>
  In every case the code is the inner code between the opening and the closing
  text; this is the only fact about \<open>lazyness_incoming\<close> that later proofs use.
\<close>

lemma lazyness_incoming_eq:
  "lazyness_incoming sctx at lt adj inner =
     bind (push (lazy_open sctx at lt adj)) (\<lambda>_.
     bind (inner (lazy_inner sctx at lt adj)) (\<lambda>r.
     bind (push (lazy_close sctx at lt adj)) (\<lambda>_. ret r)))"
proof -
  obtain a' da where a: "merge_sttr (await_st sctx) at = (a', da)" by fastforce
  obtain l' dl where l: "merge_sttr (lazy_st sctx) lt = (l', dl)" by fastforce
  define lta where "lta \<longleftrightarrow> at = Forward \<or> (at = Flush \<and> adj = Front)"
  define wrap where "wrap \<longleftrightarrow> dl \<and> ((\<not> da \<and> adj \<noteq> Back) \<or> lta)"
  have *: "lazy_wraps sctx at lt adj = wrap"
    by (simp add: lazy_wraps_def wrap_def lta_def a l)
  show ?thesis
    unfolding lazyness_incoming_def lazy_open_def lazy_close_def lazy_inner_def a l *
      lta_def [symmetric] wrap_def [symmetric] Let_def prod.case
    by (cases da; cases wrap; cases lta) (simp_all add: push_Nil bind_assoc bind_push_push)
qed

end
