(* ===== verification/Await_Lazy.thy ===== *)
theory Await_Lazy
  imports Helpers "HOL-Library.Sublist"
begin

text \<open>
  The await/lazy state machine of \<open>src/helpers.rs\<close> seen from outside: which wrappers
  \<open>lazyness_incoming\<close> writes, and that along a path of nested calls a wish is neither
  forgotten nor fulfilled twice.
\<close>

section \<open>Single steps\<close>

text \<open>
  \<open>merge_sttr\<close> acts exactly on a pending wish that is not merely forwarded, and on a forced
  one that is not yet fulfilled; when it acts the state is \<open>Did\<close>, and only \<open>Need\<close> turns
  \<open>Nothing\<close> into a wish.
\<close>

lemma merge_sttr_fst:
  "fst (merge_sttr st tr) =
     (if (st = Want \<and> tr \<noteq> Forward) \<or> (st = Nothing \<and> tr = Force) then Did
      else if st = Nothing \<and> tr = Need then Want else st)"
  by (cases st; cases tr) (simp_all add: merge_sttr_def)

lemma merge_sttr_snd:
  "snd (merge_sttr st tr) \<longleftrightarrow> (st = Want \<and> tr \<noteq> Forward) \<or> (st = Nothing \<and> tr = Force)"
  by (cases st; cases tr) (simp_all add: merge_sttr_def)

section \<open>Nested steps\<close>

datatype wrapper = Await | Lazy

fun render :: "wrapper \<Rightarrow> string" where
  "render Await = ''(await ''"
| "render Lazy = ''nixBlti.PLazy.from(async ()=>''"

text \<open>The parameters of one call of \<open>lazyness_incoming\<close>, and the wrappers it writes.\<close>

type_synonym lazy_call = "tr \<times> tr \<times> ladj"

fun call_wraps :: "stack_ctx \<Rightarrow> lazy_call \<Rightarrow> wrapper list" where
  "call_wraps s (at, lt, adj) =
     (if snd (merge_sttr (await_st s) at) then [Await] else []) @
     (if lazy_wraps s at lt adj
      then Lazy # (if at = Forward \<or> (at = Flush \<and> adj = Front) then [] else [Await]) else [])"

fun call_inner :: "stack_ctx \<Rightarrow> lazy_call \<Rightarrow> stack_ctx" where
  "call_inner s (at, lt, adj) = lazy_inner s at lt adj"

text \<open>
  Calls nested into each other, as they are when a construct hands the state it was
  given to the translation of a part: the wrappers from outside to inside, and the
  state at the innermost place.
\<close>

fun nest_wraps :: "stack_ctx \<Rightarrow> lazy_call list \<Rightarrow> wrapper list" where
  "nest_wraps s [] = []"
| "nest_wraps s (k # ks) = call_wraps s k @ nest_wraps (call_inner s k) ks"

fun nest_inner :: "stack_ctx \<Rightarrow> lazy_call list \<Rightarrow> stack_ctx" where
  "nest_inner s [] = s"
| "nest_inner s (k # ks) = nest_inner (call_inner s k) ks"

fun nested :: "stack_ctx \<Rightarrow> lazy_call list \<Rightarrow> (stack_ctx \<Rightarrow> ('l, 'p, 'a) act) \<Rightarrow> ('l, 'p, 'a) act" where
  "nested s [] m = m s"
| "nested s ((at, lt, adj) # ks) m = lazyness_incoming s at lt adj (\<lambda>s'. nested s' ks m)"

lemma lazy_open_wraps: "lazy_open s at lt adj = concat (map render (call_wraps s (at, lt, adj)))"
  by (simp add: lazy_open_def)

lemma lazy_close_wraps: "lazy_close s at lt adj = replicate (length (call_wraps s (at, lt, adj))) (CHR '')'')"
  by (simp add: lazy_close_def)

text \<open>What a single call does to the await state.\<close>

definition await_follows :: "st \<Rightarrow> wrapper list \<Rightarrow> st \<Rightarrow> bool" where
  "await_follows a w a' \<longleftrightarrow>
     (if w = [] then a' = a \<or> (a = Nothing \<and> a' = Want)
      else a' = (if last w = Await then Did else Want))"

lemma call_await: "await_follows (await_st s) (call_wraps s k) (await_st (call_inner s k))"
proof (cases k)
  case (fields at lt adj)
  then show ?thesis
    by (cases "await_st s"; cases at; cases "lazy_wraps s at lt adj"; cases adj)
      (simp_all add: await_follows_def lazy_inner_def merge_sttr_fst merge_sttr_snd lazy_wraps_def)
qed

lemma await_follows_append:
  assumes "await_follows a w b" "await_follows b w' c"
  shows "await_follows a (w @ w') c"
  using assms by (auto simp: await_follows_def split: if_splits)

lemma nest_await: "await_follows (await_st s) (nest_wraps s ks) (await_st (nest_inner s ks))"
proof (induction ks arbitrary: s)
  case (Cons k ks)
  show ?case using await_follows_append [OF call_await Cons] by simp
qed (simp add: await_follows_def)

lemma call_wraps_Did: "await_st s = Did \<Longrightarrow> call_wraps s k \<noteq> [] \<Longrightarrow> hd (call_wraps s k) = Lazy"
  by (cases k) (auto simp: merge_sttr_snd)

lemma nest_wraps_Did: "await_st s = Did \<Longrightarrow> nest_wraps s ks \<noteq> [] \<Longrightarrow> hd (nest_wraps s ks) = Lazy"
proof (induction ks arbitrary: s)
  case (Cons k ks)
  show ?case
  proof (cases "call_wraps s k = []")
    case True
    with call_await [of s k] Cons.prems have "await_st (call_inner s k) = Did"
      by (simp add: await_follows_def)
    with Cons.IH Cons.prems True show ?thesis by simp
  next
    case False
    with call_wraps_Did [of s k] Cons.prems show ?thesis by simp
  qed
qed simp

text \<open>No wrapper list has two adjacent \<open>Await\<close>.\<close>

fun no_double_await :: "wrapper list \<Rightarrow> bool" where
  "no_double_await [] = True"
| "no_double_await (w # ws) \<longleftrightarrow> (w = Lazy \<or> ws = [] \<or> hd ws = Lazy) \<and> no_double_await ws"

lemma no_double_await_append:
  "no_double_await w \<Longrightarrow> no_double_await w' \<Longrightarrow> (w \<noteq> [] \<Longrightarrow> last w = Await \<Longrightarrow> w' \<noteq> [] \<Longrightarrow> hd w' = Lazy) \<Longrightarrow>
   no_double_await (w @ w')"
proof (induction w)
  case (Cons a w)
  then show ?case by (cases a; cases w) auto
qed simp

lemma call_no_double: "no_double_await (call_wraps s k)"
  by (cases k) (auto simp: lazy_wraps_def)

lemma nest_no_double: "no_double_await (nest_wraps s ks)"
proof (induction ks arbitrary: s)
  case (Cons k ks)
  have "hd (nest_wraps (call_inner s k) ks) = Lazy"
    if "call_wraps s k \<noteq> []" "last (call_wraps s k) = Await" "nest_wraps (call_inner s k) ks \<noteq> []"
    using call_await [of s k] that by (intro nest_wraps_Did) (simp_all add: await_follows_def)
  with Cons show ?case by (auto intro: no_double_await_append call_no_double)
qed simp

lemma nested_text:
  "nested s ks m =
     bind (push (concat (map render (nest_wraps s ks)))) (\<lambda>_.
     bind (m (nest_inner s ks)) (\<lambda>r.
     bind (push (replicate (length (nest_wraps s ks)) (CHR '')''))) (\<lambda>_. ret r)))"
proof (induction s ks m rule: nested.induct)
  case (1 s m)
  then show ?case by (simp add: push_Nil)
next
  case (2 s at lt adj ks m)
  then show ?case
    by (simp add: lazyness_incoming_eq lazy_open_wraps lazy_close_wraps bind_assoc bind_push_push
      replicate_add [symmetric] add.commute del: call_wraps.simps)
qed

section \<open>Properties\<close>

text \<open>C10: Calls of \<open>lazyness_incoming\<close> nested to any depth write a list of \<open>(await \<close> and
  \<open>PLazy.from(async ()=>\<close> openers, run the inner action once, and close exactly the brackets they
  opened. Among the openers no \<open>await\<close> directly follows another, and the await state handed to the
  inner action is right: it is \<open>Did\<close> if the innermost opener is an \<open>await\<close>, \<open>Want\<close> if it is a lazy
  wrapper, and the state from outside, or a new wish, if nothing was opened.\<close>

theorem lazyness_nesting:
  "\<exists>w s'. (\<forall>m. nested s ks m =
       bind (push (concat (map render w))) (\<lambda>_.
       bind (m s') (\<lambda>r.
       bind (push (replicate (length w) (CHR '')''))) (\<lambda>_. ret r)))) \<and>
     no_double_await w \<and>
     (if w = [] then await_st s' = await_st s \<or> (await_st s = Nothing \<and> await_st s' = Want)
      else await_st s' = (if last w = Await then Did else Want))"
  using nested_text [of s ks] nest_no_double [of s ks] nest_await [of s ks]
  unfolding await_follows_def by blast

end
