(* ===== verification/Source_Map.thy ===== *)
theory Source_Map
  imports Helpers
begin

text \<open>
  The source map recorder of \<open>src/helpers.rs\<close>: \<open>snapshot_pos\<close> appends a segment to
  \<open>mappings\<close> that says where in the input the code written from now on comes from,
  \<open>snapshot_ident\<close> encloses the text of an identifier in two snapshots and adds its
  name to the name table.
\<close>

section \<open>Checked conversions\<close>

text \<open>\<open>i64::try_from\<close> and \<open>u32::try_from\<close> followed by \<open>unwrap\<close>.\<close>

definition i64_try_from :: "nat \<Rightarrow> ('s, int) tm" where
  "i64_try_from n = (if int n < 2 ^ 63 then ret (int n) else throw (Panic ''i64::try_from''))"

definition u32_try_from :: "int \<Rightarrow> ('s, nat) tm" where
  "u32_try_from i = (if 0 \<le> i \<and> i < 2 ^ 32 then ret (nat i) else throw (Panic ''u32::try_from''))"

section \<open>Recording positions\<close>

definition put_mappings :: "string \<Rightarrow> ('l, 'p, unit) act" where
  "put_mappings s = modify (\<lambda>c. c\<lparr>mappings := mappings c @ s\<rparr>)"

text \<open>
  The bytes of one segment: a \<open>;\<close> for every new output line, or a separating comma,
  then the column offset in the output and, if the input position moved, the
  source index 0 and the line and column offsets in the input.
\<close>

definition segment_bytes ::
  "('l, 'p) ext \<Rightarrow> string \<Rightarrow> nat \<Rightarrow> nat \<Rightarrow> int \<Rightarrow> int \<Rightarrow> string" where
  "segment_bytes E maps dst_oline dst_ocol src_oline src_ocol =
     replicate dst_oline (CHR '';'') @
     (if dst_oline = 0 \<and> maps \<noteq> [] then '','' else []) @
     vlq_encode E (int dst_ocol) @
     (if \<not> (src_oline = 0 \<and> src_ocol = 0)
      then vlq_encode E 0 @ vlq_encode E src_oline @ vlq_encode E src_ocol else [])"

definition snapshot_pos :: "('l, 'p) ext \<Rightarrow> nat \<Rightarrow> ('l, 'p, unit option) act" where
  "snapshot_pos E inpos =
    bind (gets line_cache) (\<lambda>cache.
    let ((src_line, src_col), cache') = lc_run E cache inpos in
    bind (modify (\<lambda>c. c\<lparr>line_cache := cache'\<rparr>)) (\<lambda>_.
    bind (gets lp_src) (\<lambda>lp.
    bind (i64_try_from src_line) (\<lambda>sl.
    bind (i64_try_from (fst lp)) (\<lambda>ll.
    bind (i64_try_from src_col) (\<lambda>sc.
    bind (i64_try_from (snd lp)) (\<lambda>lc.
    let src_oline = sl - ll; src_ocol = sc - lc in
    bind (gets acc) (\<lambda>a.
    bind (gets lp_dst) (\<lambda>pd.
    let (upd, lp_dst') = pt_update E pd a (length a) in
    (case upd of
       None \<Rightarrow> ret None
     | Some (oline, ocol) \<Rightarrow>
        bind (u32_try_from oline) (\<lambda>dst_oline.
        bind (u32_try_from ocol) (\<lambda>dst_ocol.
        if dst_oline = 0 \<and> dst_ocol = 0 \<and> src_oline = 0 \<and> src_ocol = 0 then ret (Some ())
        else
          bind (gets mappings) (\<lambda>maps.
          bind (put_mappings (segment_bytes E maps dst_oline dst_ocol src_oline src_ocol)) (\<lambda>_.
          bind (modify (\<lambda>c. c\<lparr>lp_src := (src_line, src_col), lp_dst := lp_dst'\<rparr>)) (\<lambda>_.
          ret (Some ()))))))))))))))))"

section \<open>Recording names\<close>

text \<open>The position of the first occurrence of a name: \<open>iter().enumerate().find(..)\<close>.\<close>

fun find_index :: "'a \<Rightarrow> 'a list \<Rightarrow> nat option" where
  "find_index x [] = None"
| "find_index x (y # ys) = (if x = y then Some 0 else map_option Suc (find_index x ys))"

lemma find_index_None: "find_index x xs = None \<Longrightarrow> x \<notin> set xs"
  by (induction xs) (auto split: if_splits)

lemma find_index_nth: "find_index x xs = Some k \<Longrightarrow> k < length xs \<and> xs ! k = x"
  by (induction xs arbitrary: k) (auto split: if_splits)

text \<open>The name table: reuse an entry, or append one.\<close>

definition intern_name :: "string \<Rightarrow> ('l, 'p, nat) act" where
  "intern_name ident = bind (gets names) (\<lambda>ns.
     case find_index ident ns of
       Some idx \<Rightarrow> ret idx
     | None \<Rightarrow> bind (modify (\<lambda>c. c\<lparr>names := names c @ [ident]\<rparr>)) (\<lambda>_. ret (length ns)))"

text \<open>The name of the identifier, appended as a further field of the last segment.\<close>

definition record_name :: "('l, 'p) ext \<Rightarrow> text_range \<Rightarrow> ('l, 'p, unit) act" where
  "record_name E inrng =
     bind (gets inp) (\<lambda>input.
     case str_slice input inrng of
       None \<Rightarrow> throw (Panic ''slice'')
     | Some ident \<Rightarrow>
         bind (intern_name ident) (\<lambda>idx.
         bind (i64_try_from idx) (\<lambda>i.
         put_mappings (vlq_encode E i))))"

definition snapshot_ident ::
  "('l, 'p) ext \<Rightarrow> text_range \<Rightarrow> ('l, 'p, 'a) act \<Rightarrow> ('l, 'p, 'a) act" where
  "snapshot_ident E inrng consume =
    bind (snapshot_pos E (fst inrng)) (\<lambda>s1.
    bind consume (\<lambda>r.
    bind (snapshot_pos E (snd inrng)) (\<lambda>s2.
    bind (if s1 \<noteq> None \<and> s2 \<noteq> None then record_name E inrng else skip) (\<lambda>_.
    ret r))))"

end
