(* ===== verification/Idents.thy ===== *)
theory Idents
  imports Source_Map
begin

text \<open>
  Identifiers, \<open>src/lib.rs\<close> lines 45 to 187: resolving a name to its category, and
  writing it as a string literal, as a property access or as a variable.
\<close>

section \<open>Names as keys\<close>

definition translate_node_ident_escape_str ::
  "('l, 'p) ext \<Rightarrow> ident \<Rightarrow> ('l, 'p, string) act" where
  "translate_node_ident_escape_str E i =
     (let r = escape_str E (as_str i)
      in bind (snapshot_ident E (id_rng i) (push r)) (\<lambda>_. ret r))"

definition index_text :: "('l, 'p) ext \<Rightarrow> string \<Rightarrow> string" where
  "index_text E vn =
     (if attrelem_raw_safe vn then ''.'' @ vn else ''['' @ escape_str E vn @ '']'')"

definition translate_node_ident_indexing ::
  "('l, 'p) ext \<Rightarrow> ident \<Rightarrow> ('l, 'p, string) act" where
  "translate_node_ident_indexing E i =
     (let r = index_text E (as_str i)
      in bind (snapshot_ident E (id_rng i) (push r)) (\<lambda>_. ret r))"

section \<open>Resolution\<close>

text \<open>\<open>vars.iter().rev().find(..)\<close>: the binding pushed last wins.\<close>

definition lookup_var :: "(string \<times> ident_categ) list \<Rightarrow> string \<Rightarrow> ident_categ option" where
  "lookup_var vs vn = map_option snd (find (\<lambda>(i, _). vn = i) (rev vs))"

definition resolve_ident :: "('l, 'p) ctx \<Rightarrow> ident \<Rightarrow> string + ident_categ" where
  "resolve_ident c i =
     (case lookup_var (vars c) (as_str i) of
        Some categ \<Rightarrow> Inr categ
      | None \<Rightarrow>
          if 0 < with_stack c then Inr WithScopeVar
          else Inl (''line '' @ show_nat (txtrng_to_lineno (inp c) (id_rng i)) @
                    '': unknown identifier '' @ as_str i))"

section \<open>Names as expressions\<close>

text \<open>The text of a lambda argument or let variable.\<close>

definition mangle_var :: "string \<Rightarrow> string" where
  "mangle_var vn =
     NIX_LAMBDA_ARG_PFX @ replace_char (CHR 0x27) ''_$'' (replace_char (CHR ''-'') ''_$_'' vn)"

text \<open>
  The text that the match on the category pushes, without the wrapper that
  \<open>handle_lazyness\<close> may add.
\<close>

definition ident_text :: "('l, 'p) ext \<Rightarrow> string \<Rightarrow> ident_categ \<Rightarrow> string" where
  "ident_text E vn categ =
     (case categ of
        Literal lit \<Rightarrow> lit
      | AlBuiltin ablti \<Rightarrow>
          (if ablti = ''builtins'' then NIX_BUILTINS_RT
           else NIX_BUILTINS_RT @ ''.'' @
                (case strip_prefix ''__'' ablti of None \<Rightarrow> ablti | Some s \<Rightarrow> s))
      | LambdaArg \<Rightarrow> mangle_var vn
      | LetLetVar \<Rightarrow> mangle_var vn
      | _ \<Rightarrow> NIX_IN_SCOPE @ index_text E vn)"

definition is_global_categ :: "ident_categ \<Rightarrow> bool" where
  "is_global_categ categ =
     (case categ of Literal _ \<Rightarrow> True | AlBuiltin _ \<Rightarrow> True | _ \<Rightarrow> False)"

text \<open>\<open>self.acc[startpos..].to_string()\<close>; the buffer only grows, so the slice exists.\<close>

definition acc_from :: "nat \<Rightarrow> ('l, 'p, string) act" where
  "acc_from p = gets (\<lambda>c. drop p (acc c))"

definition handle_lazyness ::
  "stack_ctx option \<Rightarrow> ('l, 'p, unit) act \<Rightarrow> ('l, 'p, string option) act" where
  "handle_lazyness sctx inner =
     (case sctx of
        Some s \<Rightarrow> lazyness_incoming s Flush Flush Back (\<lambda>_.
          bind (gets (\<lambda>c. length (acc c))) (\<lambda>startpos.
          bind inner (\<lambda>_.
          bind (acc_from startpos) (\<lambda>t. ret (Some t)))))
      | None \<Rightarrow> bind inner (\<lambda>_. ret None))"

definition translate_node_ident_raw ::
  "('l, 'p) ext \<Rightarrow> stack_ctx option \<Rightarrow> text_range \<Rightarrow> string \<Rightarrow> ident_categ \<Rightarrow> ('l, 'p, string) act"
where
  "translate_node_ident_raw E sctx txtrng vn categ =
     bind (gets (\<lambda>c. length (acc c))) (\<lambda>startpos.
     let inner = snapshot_ident E txtrng (push (ident_text E vn categ)) in
     bind (if is_global_categ categ then bind inner (\<lambda>_. ret None)
           else handle_lazyness sctx inner) (\<lambda>r.
     case r of Some x \<Rightarrow> ret x | None \<Rightarrow> acc_from startpos))"

definition translate_node_ident ::
  "('l, 'p) ext \<Rightarrow> stack_ctx option \<Rightarrow> ident \<Rightarrow> ('l, 'p, string) act" where
  "translate_node_ident E sctx i =
     bind (gets (\<lambda>c. resolve_ident c i)) (\<lambda>r.
     case r of
       Inl e \<Rightarrow> throw (Err e)
     | Inr categ \<Rightarrow> translate_node_ident_raw E sctx (id_rng i) (as_str i) categ)"

section \<open>Key elements\<close>

definition translate_node_key_element_force_str ::
  "('l, 'p) ext \<Rightarrow> (stack_ctx \<Rightarrow> node \<Rightarrow> ('l, 'p, unit) act) \<Rightarrow> node \<Rightarrow> ('l, 'p, unit) act" where
  "translate_node_key_element_force_str E tn n =
     (case cast_ident n of
        Some name \<Rightarrow> void (translate_node_ident_escape_str E name)
      | None \<Rightarrow> tn (mksctx Want Nothing) n)"

definition translate_node_key_element_indexing ::
  "('l, 'p) ext \<Rightarrow> (stack_ctx \<Rightarrow> node \<Rightarrow> ('l, 'p, unit) act) \<Rightarrow> node \<Rightarrow> ('l, 'p, unit) act" where
  "translate_node_key_element_indexing E tn n =
     (case cast_ident n of
        Some name \<Rightarrow> void (translate_node_ident_indexing E name)
      | None \<Rightarrow> seqs [push ''['', tn (mksctx Want Nothing) n, push '']''])"

definition translate_node_scope_indexing ::
  "('l, 'p) ext \<Rightarrow> (stack_ctx \<Rightarrow> node \<Rightarrow> ('l, 'p, unit) act) \<Rightarrow>
   node \<Rightarrow> string option \<Rightarrow> ('l, 'p, unit) act" where
  "translate_node_scope_indexing E tn k scope =
     (case scope of
        Some sc \<Rightarrow> seqs [push sc, translate_node_key_element_indexing E tn k]
      | None \<Rightarrow>
          (case cast_ident k of
             None \<Rightarrow> throw (Err (''expected ident-key @ '' @ node_text k))
           | Some i \<Rightarrow> void (translate_node_ident E None i)))"

lemma key_element_force_str_cong [fundef_cong]:
  assumes "E = E'" "n = n'" "\<And>s. tn s n' = tn' s n'"
  shows "translate_node_key_element_force_str E tn n =
    translate_node_key_element_force_str E' tn' n'"
  using assms by (auto simp: translate_node_key_element_force_str_def split: option.splits)

lemma key_element_indexing_cong [fundef_cong]:
  assumes "E = E'" "n = n'" "\<And>s. tn s n' = tn' s n'"
  shows "translate_node_key_element_indexing E tn n =
    translate_node_key_element_indexing E' tn' n'"
  using assms by (auto simp: translate_node_key_element_indexing_def split: option.splits)

lemma scope_indexing_cong [fundef_cong]:
  assumes "E = E'" "k = k'" "sc = sc'" "\<And>s. tn s k' = tn' s k'"
  shows "translate_node_scope_indexing E tn k sc = translate_node_scope_indexing E' tn' k' sc'"
proof -
  have "translate_node_key_element_indexing E tn k = translate_node_key_element_indexing E' tn' k'"
    by (rule key_element_indexing_cong) (use assms in auto)
  then show ?thesis
    using assms by (auto simp: translate_node_scope_indexing_def split: option.splits)
qed

end
