(* ===== verification/Entries.thy ===== *)
theory Entries
  imports Idents
begin

text \<open>
  The entries of an attribute set or a \<open>let\<close>: \<open>translate_node_kv\<close> writes one
  \<open>key = value;\<close>, \<open>translate_node_inherit\<close> one \<open>inherit\<close>. \<open>scope\<close> is the JavaScript object
  the entries are stored in, or \<open>None\<close> when they are plain \<open>let\<close> variables.
\<close>

definition line_err :: "text_range \<Rightarrow> string \<Rightarrow> ('l, 'p, 'a) act" where
  "line_err txtrng msg = bind (gets inp) (\<lambda>s.
     throw (Err (''line '' @ show_nat (txtrng_to_lineno s txtrng) @ '': '' @ msg)))"

section \<open>Key-value pairs\<close>

definition translate_node_kv ::
  "('l, 'p) ext \<Rightarrow> (stack_ctx \<Rightarrow> node \<Rightarrow> ('l, 'p, unit) act) \<Rightarrow>
   stack_ctx \<Rightarrow> node key_value \<Rightarrow> string option \<Rightarrow> ('l, 'p, unit) act" where
  "translate_node_kv E tn value_sctx i scope =
    (case kv_key i of
       None \<Rightarrow> line_err (kv_rng i) ''key for key-value pair missing''
     | Some [] \<Rightarrow> line_err (kv_rng i) ''key for key-value pair missing''
     | Some (kpfi # kpr) \<Rightarrow>
        (case kv_value i of
           None \<Rightarrow> line_err (kv_rng i) ''value for key-value pair missing''
         | Some value \<Rightarrow>
             if kpr = [] then
               seqs [translate_node_scope_indexing E tn kpfi scope,
                     push ''='',
                     tn value_sctx value,
                     push '';'']
             else
               seqs [case scope of
                       None \<Rightarrow> skip
                     | Some sc \<Rightarrow>
                         seqs [push (''if(!Object.prototype.hasOwnProperty.call('' @ sc @ '',''),
                               translate_node_key_element_force_str E tn kpfi,
                               push (''))'' @ sc),
                               translate_node_key_element_indexing E tn kpfi,
                               push ''=Object.create(null);''],
                     push (''await '' @ NIX_OPERATORS @ ''._deepMerge(''),
                     translate_node_scope_indexing E tn kpfi scope,
                     push '','',
                     tn value_sctx value,
                     seqs (map (\<lambda>k. seqs [push '','', translate_node_key_element_force_str E tn k]) kpr),
                     push '');'']))"

lemma translate_node_kv_cong [fundef_cong]:
  assumes "E = E'" "s = s'" "i = i'" "sc = sc'"
    and tn: "\<And>s n. n \<in> set_key_value i' \<Longrightarrow> tn s n = tn' s n"
  shows "translate_node_kv E tn s i sc = translate_node_kv E' tn' s' i' sc'"
proof (cases i')
  case (KeyValue r k v)
  show ?thesis
  proof (cases "\<exists>kpfi kpr v0. k = Some (kpfi # kpr) \<and> v = Some v0")
    case True
    then obtain kpfi kpr v0 where kv: "k = Some (kpfi # kpr)" "v = Some v0" by blast
    have mem: "kpfi \<in> set_key_value i'" "v0 \<in> set_key_value i'"
      "\<And>x. x \<in> set kpr \<Longrightarrow> x \<in> set_key_value i'"
      by (auto simp: KeyValue kv)
    have "translate_node_scope_indexing E' tn kpfi sc' = translate_node_scope_indexing E' tn' kpfi sc'"
      "translate_node_key_element_force_str E' tn kpfi = translate_node_key_element_force_str E' tn' kpfi"
      "translate_node_key_element_indexing E' tn kpfi = translate_node_key_element_indexing E' tn' kpfi"
      by (intro scope_indexing_cong key_element_force_str_cong key_element_indexing_cong refl
        tn mem)+
    moreover have "map (\<lambda>k. seqs [push '','', translate_node_key_element_force_str E' tn k]) kpr =
      map (\<lambda>k. seqs [push '','', translate_node_key_element_force_str E' tn' k]) kpr"
      by (rule map_cong) (auto intro!: arg_cong2 [where f = bind] key_element_force_str_cong tn mem)
    ultimately show ?thesis
      by (simp only: assms(1-4) translate_node_kv_def tn [OF mem(2)] KeyValue kv key_value.sel
        option.case list.case)
  next
    case False
    with assms KeyValue show ?thesis
      by (auto simp: translate_node_kv_def split: option.splits list.splits)
  qed
qed

section \<open>Inherit\<close>

definition inherit_from_one ::
  "('l, 'p) ext \<Rightarrow> (stack_ctx \<Rightarrow> node \<Rightarrow> ('l, 'p, unit) act) \<Rightarrow>
   node inherit_from \<Rightarrow> ident \<Rightarrow> ('l, 'p, unit) act" where
  "inherit_from_one E tn inhf i =
     seqs [rtv tn (mksctx Want Nothing) (inhf_rng inhf) (inhf_inner inhf) ''inner for inherit-from'',
           void (translate_node_ident_indexing E i)]"

definition translate_node_inherit ::
  "('l, 'p) ext \<Rightarrow> (stack_ctx \<Rightarrow> node \<Rightarrow> ('l, 'p, unit) act) \<Rightarrow>
   stack_ctx \<Rightarrow> node inherit \<Rightarrow> string option \<Rightarrow> string option \<Rightarrow> ('l, 'p, unit) act" where
  "translate_node_inherit E tn value_sctx inh scope use_inhtmp =
    (case inh_from inh of
       Some inhf \<Rightarrow>
        (case inh_idents inh of
           [i] \<Rightarrow>
             seqs [translate_node_scope_indexing E tn (ident_node i) scope,
                   push ''='',
                   lazyness_incoming value_sctx Forward Need Front
                     (\<lambda>_. inherit_from_one E tn inhf i),
                   push '';'']
         | idents \<Rightarrow>
             (let inhf_var = (case use_inhtmp of Some x \<Rightarrow> x | None \<Rightarrow> ''nixInhR'')
              in seqs [case use_inhtmp of
                         Some x \<Rightarrow> seqs [push ''const '', push x]
                       | None \<Rightarrow> push ''await (async ()=>{const nixInhR'',
                       push ''='',
                       lazyness_incoming (mksctx Nothing Want) Forward Flush Front
                         (\<lambda>sctx. rtv tn sctx (inhf_rng inhf) (inhf_inner inhf)
                                   ''inner for inherit-from''),
                       push '';'',
                       seqs (map (\<lambda>i.
                         seqs [translate_node_scope_indexing E tn (ident_node i) scope,
                               push (''='' @ inhf_var @ ''.then(nixV=>nixV''),
                               void (translate_node_ident_indexing E i),
                               push '');'']) idents),
                       if use_inhtmp = None then push ''})()'' else skip,
                       push '';'']))
     | None \<Rightarrow>
         seqs (map (\<lambda>i.
           seqs [translate_node_scope_indexing E tn (ident_node i) scope,
                 push ''='',
                 void (translate_node_ident E (Some value_sctx) i),
                 push '';'']) (inh_idents inh)))"

text \<open>
  The translation of nodes is called on the inner expression of \<open>inherit (e) ...\<close> only:
  the keys are identifiers.
\<close>

lemma scope_indexing_ident:
  "translate_node_scope_indexing E tn (ident_node i) scope =
     translate_node_scope_indexing E tn' (ident_node i) scope"
  by (simp add: translate_node_scope_indexing_def translate_node_key_element_indexing_def
    split: option.splits)

lemma translate_node_inherit_cong [fundef_cong]:
  assumes "E = E'" "s = s'" "i = i'" "sc = sc'" "u = u'"
    and tn: "\<And>s n. n \<in> set_inherit i' \<Longrightarrow> tn s n = tn' s n"
  shows "translate_node_inherit E tn s i sc u = translate_node_inherit E' tn' s' i' sc' u'"
proof (cases "inh_from i'")
  case None
  then show ?thesis
    using assms by (simp add: translate_node_inherit_def scope_indexing_ident [of E' tn _ _ tn'])
next
  case (Some inhf)
  then have "\<And>s n. inhf_inner inhf = Some n \<Longrightarrow> tn s n = tn' s n"
    by (cases i'; cases inhf) (auto intro: tn)
  then have *: "\<And>s. rtv tn s (inhf_rng inhf) (inhf_inner inhf) d =
      rtv tn' s (inhf_rng inhf) (inhf_inner inhf) d" for d
    by (intro rtv_cong refl)
  show ?thesis
    by (simp only: assms(1-5) translate_node_inherit_def inherit_from_one_def Some option.case *
      scope_indexing_ident [of E' tn _ _ tn'])
qed

end
