(* ===== verification/Let_Scope.thy ===== *)
theory Let_Scope
  imports Entries "HOL-Library.List_Lexorder" "HOL-Library.Char_ord"
begin

text \<open>
  \<open>translate_let\<close>, \<open>src/lib.rs\<close> lines 337 to 535: attribute sets, \<open>let .. in ..\<close> and the
  legacy \<open>let { .. }\<close>. There are three shapes of output: an object literal, plain
  JavaScript \<open>let\<close> variables, and a function over a scope object.
\<close>

section \<open>Keys\<close>

text \<open>\<open>i.key().and_then(|j| j.path().next())\<close>\<close>

definition first_key :: "node key_value \<Rightarrow> node option" where
  "first_key i = (case kv_key i of Some (k # _) \<Rightarrow> Some k | _ \<Rightarrow> None)"

text \<open>
  The static keys of the entries and the inherited identifiers with their
  ranges. \<open>getkeys\<close> sorts them by name (an unstable sort; among equal names the
  order, and with it the range that \<open>dedup_by_key\<close> keeps, is that of a stable one
  here) and removes duplicates.
\<close>

definition raw_keys :: "node entry_holder \<Rightarrow> (text_range \<times> string) list" where
  "raw_keys eh =
     List.map_filter (\<lambda>n. map_option (\<lambda>j. (id_rng j, as_str j)) (cast_ident n))
       (List.map_filter first_key (entries eh) @
        map ident_node (concat (map inh_idents (inherits eh))))"

definition getkeys :: "node entry_holder \<Rightarrow> (text_range \<times> string) list" where
  "getkeys eh = dedup_by_key snd (sort_key snd (raw_keys eh))"

section \<open>Scopes of variables\<close>

definition push_var :: "string \<Rightarrow> ident_categ \<Rightarrow> ('l, 'p, unit) act" where
  "push_var vn categ = modify (\<lambda>c. c\<lparr>vars := vars c @ [(vn, categ)]\<rparr>)"

text \<open>\<open>assert!(vars.len() >= n); vars.truncate(n)\<close>\<close>

definition truncate_vars :: "nat \<Rightarrow> ('l, 'p, unit) act" where
  "truncate_vars n = bind (gets vars) (\<lambda>vs.
     if n \<le> length vs then modify (\<lambda>c. c\<lparr>vars := take n (vars c)\<rparr>)
     else throw (Panic ''assertion failed: vars.len() >= orig_vstkl''))"

text \<open>Code between reading \<open>vars.len()\<close> and truncating to it.\<close>

definition scoped :: "('l, 'p, unit) act \<Rightarrow> ('l, 'p, unit) act" where
  "scoped m = bind (gets (\<lambda>c. length (vars c))) (\<lambda>n. bind m (\<lambda>_. truncate_vars n))"

section \<open>The three shapes\<close>

datatype let_body = LetNix node | ExtractScope

definition simple_inherits :: "node entry_holder \<Rightarrow> bool" where
  "simple_inherits eh \<longleftrightarrow>
     list_all (\<lambda>i. inh_from i = None \<or> length (inh_idents i) = 1) (inherits eh)"

definition object_entries :: "node entry_holder \<Rightarrow> bool" where
  "object_entries eh \<longleftrightarrow>
     list_all (\<lambda>i. kv_value i \<noteq> None \<and>
       (case kv_key i of Some [k] \<Rightarrow> cast_ident k \<noteq> None | _ \<Rightarrow> False)) (entries eh)"

definition letvar_entries :: "node entry_holder \<Rightarrow> bool" where
  "letvar_entries eh \<longleftrightarrow>
     list_all (\<lambda>i. kv_value i \<noteq> None \<and>
       (case first_key i of Some k \<Rightarrow> cast_ident k \<noteq> None | None \<Rightarrow> False)) (entries eh)"

definition let_object_entry ::
  "('l, 'p) ext \<Rightarrow> (stack_ctx \<Rightarrow> node \<Rightarrow> ('l, 'p, unit) act) \<Rightarrow>
   stack_ctx \<Rightarrow> node key_value \<Rightarrow> ('l, 'p, unit) act" where
  "let_object_entry E tn value_sctx i =
     (case (Option.bind (first_key i) cast_ident, kv_value i) of
        (Some k, Some v) \<Rightarrow>
          seqs [void (translate_node_ident_escape_str E k), push '':'', tn value_sctx v]
      | _ \<Rightarrow> throw (Panic ''unwrap on None''))"

definition let_object_inherit ::
  "('l, 'p) ext \<Rightarrow> (stack_ctx \<Rightarrow> node \<Rightarrow> ('l, 'p, unit) act) \<Rightarrow>
   stack_ctx \<Rightarrow> ident \<times> node inherit_from option \<Rightarrow> ('l, 'p, unit) act" where
  "let_object_inherit E tn value_sctx p =
     (case p of (i, inhf) \<Rightarrow>
        seqs [void (translate_node_ident_escape_str E i),
              push '':'',
              case inhf of
                Some x \<Rightarrow> lazyness_incoming value_sctx Flush Flush Front
                            (\<lambda>_. inherit_from_one E tn x i)
              | None \<Rightarrow> void (translate_node_ident E (Some value_sctx) i)])"

definition inherit_pairs :: "node entry_holder \<Rightarrow> (ident \<times> node inherit_from option) list" where
  "inherit_pairs eh =
     concat (map (\<lambda>inh. map (\<lambda>i. (i, inh_from inh)) (inh_idents inh)) (inherits eh))"

definition let_object ::
  "('l, 'p) ext \<Rightarrow> (stack_ctx \<Rightarrow> node \<Rightarrow> ('l, 'p, unit) act) \<Rightarrow>
   stack_ctx \<Rightarrow> node entry_holder \<Rightarrow> ('l, 'p, unit) act" where
  "let_object E tn value_sctx eh =
     seqs [push ''Object.assign(Object.create(null),{'',
           seqs_sep True (push '','')
             (map (let_object_entry E tn value_sctx) (entries eh) @
              map (let_object_inherit E tn value_sctx) (inherit_pairs eh)),
           push ''})'']"

text \<open>The entries and inherits of the other two shapes, and their \<open>return\<close>.\<close>

definition let_entries ::
  "('l, 'p) ext \<Rightarrow> (stack_ctx \<Rightarrow> node \<Rightarrow> ('l, 'p, unit) act) \<Rightarrow>
   stack_ctx \<Rightarrow> node entry_holder \<Rightarrow> string option \<Rightarrow> ('l, 'p, unit) act" where
  "let_entries E tn value_sctx eh scope =
     seqs [seqs (map (\<lambda>i. translate_node_kv E tn value_sctx i scope) (entries eh)),
           seqs (map (\<lambda>(n, i). translate_node_inherit E tn value_sctx i scope
                                  (Some (''nixInhR'' @ show_nat n)))
                  (enumerate 0 (inherits eh)))]"

definition let_return ::
  "(stack_ctx \<Rightarrow> node \<Rightarrow> ('l, 'p, unit) act) \<Rightarrow> let_body \<Rightarrow> string \<Rightarrow> ('l, 'p, unit) act" where
  "let_return tn body scope =
     seqs [push ''return '',
           case body of
             LetNix b \<Rightarrow> tn (mksctx Want Nothing) b
           | ExtractScope \<Rightarrow> push (scope @ ''['' @ NIX_EXTRACT_SCOPE @ '']'')]"

definition let_declare ::
  "('l, 'p) ext \<Rightarrow> text_range \<times> string \<Rightarrow> ('l, 'p, unit) act" where
  "let_declare E p = (case p of (irng, i) \<Rightarrow>
     seqs [push_var i LetLetVar, void (translate_node_ident_raw E None irng i LetLetVar)])"

definition let_vars ::
  "('l, 'p) ext \<Rightarrow> (stack_ctx \<Rightarrow> node \<Rightarrow> ('l, 'p, unit) act) \<Rightarrow>
   stack_ctx \<Rightarrow> node entry_holder \<Rightarrow> let_body \<Rightarrow> string \<Rightarrow> ('l, 'p, unit) act" where
  "let_vars E tn value_sctx eh body scope =
     scoped (seqs [push ''{let '',
                   seqs_sep True (push '','') (map (let_declare E) (getkeys eh)),
                   push '';'',
                   let_entries E tn value_sctx eh None,
                   let_return tn body scope,
                   push '';}''])"

definition let_scope ::
  "('l, 'p) ext \<Rightarrow> (stack_ctx \<Rightarrow> node \<Rightarrow> ('l, 'p, unit) act) \<Rightarrow>
   stack_ctx \<Rightarrow> node entry_holder \<Rightarrow> let_body \<Rightarrow> string \<Rightarrow> ('l, 'p, unit) act" where
  "let_scope E tn value_sctx eh body scope =
     seqs [push (''(async '' @ scope @ ''=>{''),
           scoped (seqs [
             if scope = NIX_IN_SCOPE
             then seqs (map (\<lambda>(_, i). push_var i LetInScopeVar) (getkeys eh)) else skip,
             let_entries E tn value_sctx eh (Some scope),
             let_return tn body scope,
             push '';})(nixBlti.mkScope('',
             if scope = NIX_IN_SCOPE then push NIX_IN_SCOPE else skip]),
           push ''))'']"

section \<open>The translation of bindings\<close>

definition translate_let ::
  "('l, 'p) ext \<Rightarrow> (stack_ctx \<Rightarrow> node \<Rightarrow> ('l, 'p, unit) act) \<Rightarrow>
   stack_ctx \<Rightarrow> bool \<Rightarrow> node entry_holder \<Rightarrow> let_body \<Rightarrow> string \<Rightarrow> ('l, 'p, unit) act" where
  "translate_let E tn body_sctx values_lazy eh body scope =
    (if entries eh = [] \<and> inherits eh = [] then
       (case body of
          LetNix b \<Rightarrow> tn body_sctx b
        | ExtractScope \<Rightarrow> push ''Object.create(null)'')
     else
       (let value_sctx = (if values_lazy then mksctx Nothing Want else mksctx Nothing Nothing)
        in if scope \<noteq> NIX_IN_SCOPE \<and> body = ExtractScope \<and> object_entries eh \<and> simple_inherits eh
           then lazyness_incoming body_sctx Forward Forward Front
                  (\<lambda>_. let_object E tn value_sctx eh)
           else if scope = NIX_IN_SCOPE \<and> body \<noteq> ExtractScope \<and> letvar_entries eh \<and>
                   simple_inherits eh
           then lazyness_incoming body_sctx Forward Force Front
                  (\<lambda>_. let_vars E tn value_sctx eh body scope)
           else lazyness_incoming body_sctx Need Forward Front
                  (\<lambda>_. let_scope E tn value_sctx eh body scope)))"

section \<open>Only subtrees are translated\<close>

lemma set_entry_holder_entry: "k \<in> set (entries eh) \<Longrightarrow> n \<in> set_key_value k \<Longrightarrow> n \<in> set_entry_holder eh"
  by (cases eh) auto

lemma set_entry_holder_inherit: "i \<in> set (inherits eh) \<Longrightarrow> n \<in> set_inherit i \<Longrightarrow> n \<in> set_entry_holder eh"
  by (cases eh) auto

lemma inherit_pairs_mem:
  assumes "(i, inhf) \<in> set (inherit_pairs eh)"
  obtains inh where "inh \<in> set (inherits eh)" "inh_from inh = inhf" "i \<in> set (inh_idents inh)"
  using assms by (auto simp: inherit_pairs_def)

lemma let_entries_cong:
  assumes tn: "\<And>s n. n \<in> set_entry_holder eh \<Longrightarrow> tn s n = tn' s n"
  shows "let_entries E tn vs eh sc = let_entries E tn' vs eh sc"
proof -
  have "translate_node_kv E tn vs k sc = translate_node_kv E tn' vs k sc"
    if "k \<in> set (entries eh)" for k
    by (intro translate_node_kv_cong refl tn set_entry_holder_entry [OF that])
  moreover have "translate_node_inherit E tn vs i sc u = translate_node_inherit E tn' vs i sc u"
    if "i \<in> set (inherits eh)" for i u
    by (intro translate_node_inherit_cong refl tn set_entry_holder_inherit [OF that])
  ultimately show ?thesis
    unfolding let_entries_def
    by (intro arg_cong [where f = seqs] arg_cong2 [where f = Cons] map_cong refl)
      (auto simp: in_set_enumerate_eq)
qed

lemma let_object_cong:
  assumes tn: "\<And>s n. n \<in> set_entry_holder eh \<Longrightarrow> tn s n = tn' s n"
  shows "let_object E tn vs eh = let_object E tn' vs eh"
proof -
  have "let_object_entry E tn vs k = let_object_entry E tn' vs k" if "k \<in> set (entries eh)" for k
  proof -
    have "kv_value k = Some v \<Longrightarrow> tn vs v = tn' vs v" for v
      by (rule tn, rule set_entry_holder_entry [OF that]) (cases k; auto)
    then show ?thesis by (auto simp: let_object_entry_def split: option.splits)
  qed
  moreover have "let_object_inherit E tn vs p = let_object_inherit E tn' vs p"
    if "p \<in> set (inherit_pairs eh)" for p
  proof -
    have "inherit_from_one E tn x i = inherit_from_one E tn' x i" if p: "p = (i, Some x)" for i x
    proof -
      from \<open>p \<in> set (inherit_pairs eh)\<close> p obtain inh
        where inh: "inh \<in> set (inherits eh)" "inh_from inh = Some x"
        by (auto elim: inherit_pairs_mem)
      have "tn s n = tn' s n" if "inhf_inner x = Some n" for s n
        by (rule tn, rule set_entry_holder_inherit [OF inh(1)])
          (use inh(2) that in \<open>cases inh; cases x; auto\<close>)
      then show ?thesis
        unfolding inherit_from_one_def
        by (intro arg_cong [where f = seqs] arg_cong2 [where f = Cons] rtv_cong refl)
    qed
    then show ?thesis by (cases p) (auto simp: let_object_inherit_def split: option.splits)
  qed
  ultimately have "map (let_object_entry E tn vs) (entries eh) = map (let_object_entry E tn' vs) (entries eh)"
    "map (let_object_inherit E tn vs) (inherit_pairs eh) =
     map (let_object_inherit E tn' vs) (inherit_pairs eh)"
    by auto
  then show ?thesis by (simp only: let_object_def)
qed

lemma translate_let_cong [fundef_cong]:
  assumes "E = E'" "s = s'" "vl = vl'" "eh = eh'" "b = b'" "sc = sc'"
    and eh: "\<And>s n. n \<in> set_entry_holder eh' \<Longrightarrow> tn s n = tn' s n"
    and b: "\<And>s n. b' = LetNix n \<Longrightarrow> tn s n = tn' s n"
  shows "translate_let E tn s vl eh b sc = translate_let E' tn' s' vl' eh' b' sc'"
proof -
  have "let_return tn b' sc' = let_return tn' b' sc'"
    using b by (cases b') (simp_all add: let_return_def)
  then have "let_vars E' tn vs eh' b' sc' = let_vars E' tn' vs eh' b' sc'"
    "let_scope E' tn vs eh' b' sc' = let_scope E' tn' vs eh' b' sc'" for vs
    by (simp_all only: let_vars_def let_scope_def let_entries_cong [of eh' tn tn', OF eh])
  moreover have "(case b' of LetNix b \<Rightarrow> tn s' b | ExtractScope \<Rightarrow> push ''Object.create(null)'') =
    (case b' of LetNix b \<Rightarrow> tn' s' b | ExtractScope \<Rightarrow> push ''Object.create(null)'')"
    using b by (cases b') simp_all
  ultimately show ?thesis
    by (simp only: assms(1-6) translate_let_def let_object_cong [of eh' tn tn', OF eh])
qed

end
