(* ===== verification/Translate.thy ===== *)
theory Translate
  imports Let_Scope
begin

text \<open>
  \<open>translate_node\<close>, \<open>src/lib.rs\<close> lines 537 to 1036, one definition per arm of its
  match, and the entry point \<open>translate\<close>, lines 1039 to 1093.
\<close>

section \<open>The arms of translate\_node\<close>

text \<open>\<open>txtrng\<close> is the range of the node, \<open>sctx\<close> the await/lazy state it is translated in.\<close>

definition node_apply ::
  "(stack_ctx \<Rightarrow> node \<Rightarrow> ('l, 'p, unit) act) \<Rightarrow> stack_ctx \<Rightarrow> text_range \<Rightarrow>
   node option \<Rightarrow> node option \<Rightarrow> ('l, 'p, unit) act" where
  "node_apply tn sctx txtrng lambda val =
     lazyness_incoming sctx Need Need Front (\<lambda>_.
       seqs [push ''('',
             rtv tn (mksctx Want Nothing) txtrng lambda ''lambda for application'',
             push '')('',
             rtv tn (mksctx Nothing Nothing) txtrng val ''value for application'',
             push '')''])"

definition node_assert ::
  "('l, 'p) ext \<Rightarrow> (stack_ctx \<Rightarrow> node \<Rightarrow> ('l, 'p, unit) act) \<Rightarrow> stack_ctx \<Rightarrow> text_range \<Rightarrow>
   node option \<Rightarrow> node option \<Rightarrow> ('l, 'p, unit) act" where
  "node_assert E tn sctx txtrng condition body =
     lazyness_incoming sctx Flush Force Front (\<lambda>_.
       seqs [push ''{await '',
             push NIX_BUILTINS_RT,
             push ''.assert('',
             case condition of
               None \<Rightarrow> line_err txtrng ''condition for assert missing''
             | Some cond \<Rightarrow>
                 seqs [bind (gets inp) (\<lambda>s. push (escape_str E
                         (''line '' @ show_nat (txtrng_to_lineno s txtrng) @ '': '' @ node_text cond))),
                       push '','',
                       tn (mksctx Nothing Nothing) cond,
                       push ''); return ('',
                       rtv tn (mksctx Want Nothing) txtrng body ''body for assert'',
                       push ''); }'']])"

definition attrset_scope :: "bool \<Rightarrow> string" where
  "attrset_scope recursive = (if recursive then NIX_IN_SCOPE else ''nixAttrsScope'')"

definition node_binop ::
  "('l, 'p) ext \<Rightarrow> (stack_ctx \<Rightarrow> node \<Rightarrow> ('l, 'p, unit) act) \<Rightarrow> stack_ctx \<Rightarrow> text_range \<Rightarrow>
   binop_kind option \<Rightarrow> node option \<Rightarrow> node option \<Rightarrow> ('l, 'p, unit) act" where
  "node_binop E tn sctx txtrng operator lhs rhs =
     (case operator of
        None \<Rightarrow> line_err txtrng ''operator for binop missing''
      | Some IsSet \<Rightarrow>
          seqs [push ''Object.prototype.hasOwnProperty.call('',
                rtv tn (mksctx Want Nothing) txtrng lhs ''lhs for binop ?'',
                push '','',
                case rhs of
                  None \<Rightarrow> line_err txtrng ''rhs for binop ? missing''
                | Some x \<Rightarrow>
                    (case cast_ident x of
                       Some y \<Rightarrow> void (translate_node_ident_escape_str E y)
                     | None \<Rightarrow> tn (mksctx Want Nothing) x),
                push '')'']
      | Some (BinOther op) \<Rightarrow>
          lazyness_incoming sctx Need Flush Front (\<lambda>_.
            seqs [push (NIX_OPERATORS @ ''.'' @ op @ ''(''),
                  rtv tn (mksctx Nothing Nothing) txtrng lhs ''lhs for binop'',
                  push '','',
                  rtv tn (mksctx Nothing Nothing) txtrng rhs ''rhs for binop'',
                  push '')'']))"

definition node_ifelse ::
  "(stack_ctx \<Rightarrow> node \<Rightarrow> ('l, 'p, unit) act) \<Rightarrow> stack_ctx \<Rightarrow> text_range \<Rightarrow>
   node option \<Rightarrow> node option \<Rightarrow> node option \<Rightarrow> ('l, 'p, unit) act" where
  "node_ifelse tn sctx txtrng condition body else_body =
     lazyness_incoming sctx Flush Flush Front (\<lambda>sctx'.
       seqs [push ''(('',
             rtv tn (mksctx Want Nothing) txtrng condition ''condition for if-else'',
             push '')?('',
             rtv tn sctx' txtrng body ''if-body for if-else'',
             push ''):('',
             rtv tn sctx' txtrng else_body ''else-body for if-else'',
             push ''))''])"

subsection \<open>Lambda\<close>

text \<open>Register the names of a pattern, collecting the entries.\<close>

fun pattern_entries ::
  "string \<Rightarrow> node pat_entry list \<Rightarrow> ('l, 'p, (ident \<times> node option) list) act" where
  "pattern_entries dbg [] = ret []"
| "pattern_entries dbg (i # is) =
     (case pe_name i of
        Some z \<Rightarrow>
          bind (push_var (as_str z) LambdaArg) (\<lambda>_.
          bind (pattern_entries dbg is) (\<lambda>es.
          ret ((z, pe_default i) # es)))
      | None \<Rightarrow> throw (Err (''lambda pattern ('' @ dbg @ '') has entry without name'')))"

definition lambda_entry ::
  "('l, 'p) ext \<Rightarrow> (stack_ctx \<Rightarrow> node \<Rightarrow> ('l, 'p, unit) act) \<Rightarrow>
   string \<Rightarrow> ident \<times> node option \<Rightarrow> ('l, 'p, unit) act" where
  "lambda_entry E tn argname p = (case p of (z, dfl) \<Rightarrow>
     seqs [push ''let '',
           void (translate_node_ident E None z),
           push (''='' @ NIX_OPERATORS @ ''._lambdaA2chk('' @ argname @ '',''),
           void (translate_node_ident_escape_str E z),
           case dfl of
             None \<Rightarrow> skip
           | Some zdfl \<Rightarrow> seqs [push '','', tn (mksctx Nothing Want) zdfl],
           push '');''])"

definition lambda_argname ::
  "('l, 'p) ext \<Rightarrow> ident option \<Rightarrow> ('l, 'p, string) act" where
  "lambda_argname E at =
     (case at of
        Some z \<Rightarrow>
          bind (push_var (as_str z) LambdaArg) (\<lambda>_. translate_node_ident E None z)
      | None \<Rightarrow> bind (push NIX_LAMBDA_BOUND) (\<lambda>_. ret NIX_LAMBDA_BOUND))"

text \<open>
  The entries are translated one after another; \<open>pattern_entries\<close> returns each
  entry of the pattern in order, so the loop over them runs over the pattern.
\<close>

definition lambda_pattern ::
  "('l, 'p) ext \<Rightarrow> (stack_ctx \<Rightarrow> node \<Rightarrow> ('l, 'p, unit) act) \<Rightarrow> text_range \<Rightarrow>
   node pattern \<Rightarrow> node option \<Rightarrow> ('l, 'p, unit) act" where
  "lambda_pattern E tn txtrng y body =
     bind (lambda_argname E (pat_at y)) (\<lambda>argname.
     bind (pattern_entries (pat_dbg y) (pat_entries y)) (\<lambda>es.
     seqs [push ''=>{'',
           push argname,
           push ''=await '',
           push argname,
           push '';'',
           seqs (map (lambda_entry E tn argname) es),
           push ''return '',
           rtv tn (mksctx Want Nothing) txtrng body ''body for lambda'']))"

definition node_lambda ::
  "('l, 'p) ext \<Rightarrow> (stack_ctx \<Rightarrow> node \<Rightarrow> ('l, 'p, unit) act) \<Rightarrow> text_range \<Rightarrow> string \<Rightarrow>
   node option \<Rightarrow> node option \<Rightarrow> ('l, 'p, unit) act" where
  "node_lambda E tn txtrng dbg arg body =
     (case arg of
        None \<Rightarrow> throw (Err (''lambda ('' @ dbg @ '') with missing argument''))
      | Some argx \<Rightarrow>
          seqs [push ''(async '',
                case cast_ident argx of
                  Some y \<Rightarrow>
                    seqs [scoped (seqs [
                            push_var (as_str y) LambdaArg,
                            void (translate_node_ident E None y),
                            push ''=>('',
                            rtv tn (mksctx Want Nothing) txtrng body ''body for lambda'']),
                          push '')'']
                | None \<Rightarrow>
                    (case cast_pattern argx of
                       Some y \<Rightarrow> seqs [scoped (lambda_pattern E tn txtrng y body), push ''}'']
                     | None \<Rightarrow> throw (Err (''lambda ('' @ dbg @ '') with invalid argument''))),
                push '')''])"

subsection \<open>Bindings\<close>

definition is_body_entry :: "node key_value \<Rightarrow> bool" where
  "is_body_entry i =
     (case kv_key i of
        Some [name] \<Rightarrow> (case cast_ident name of Some j \<Rightarrow> as_str j = ''body'' | None \<Rightarrow> False)
      | _ \<Rightarrow> False)"

definition legacy_body :: "node entry_holder \<Rightarrow> node option" where
  "legacy_body eh = Option.bind (find is_body_entry (entries eh)) kv_value"

definition node_legacy_let ::
  "('l, 'p) ext \<Rightarrow> (stack_ctx \<Rightarrow> node \<Rightarrow> ('l, 'p, unit) act) \<Rightarrow> stack_ctx \<Rightarrow> text_range \<Rightarrow>
   node entry_holder \<Rightarrow> ('l, 'p, unit) act" where
  "node_legacy_let E tn sctx txtrng eh =
     (case legacy_body eh of
        None \<Rightarrow> line_err txtrng ''legacy let { ... } without body assignment''
      | Some b \<Rightarrow> translate_let E tn sctx True eh (LetNix b) NIX_IN_SCOPE)"

definition node_let_in ::
  "('l, 'p) ext \<Rightarrow> (stack_ctx \<Rightarrow> node \<Rightarrow> ('l, 'p, unit) act) \<Rightarrow> stack_ctx \<Rightarrow> text_range \<Rightarrow>
   node entry_holder \<Rightarrow> node option \<Rightarrow> ('l, 'p, unit) act" where
  "node_let_in E tn sctx txtrng eh body =
     (case body of
        None \<Rightarrow> line_err txtrng ''let ... in ... without body''
      | Some b \<Rightarrow> translate_let E tn sctx True eh (LetNix b) NIX_IN_SCOPE)"

subsection \<open>Lists, selection and defaults\<close>

definition node_list ::
  "(stack_ctx \<Rightarrow> node \<Rightarrow> ('l, 'p, unit) act) \<Rightarrow> stack_ctx \<Rightarrow> node list \<Rightarrow> ('l, 'p, unit) act" where
  "node_list tn sctx items =
     lazyness_incoming sctx Forward Flush Front (\<lambda>_.
       seqs [push ''['',
             seqs_sep True (push '','') (map (tn (mksctx Nothing Nothing)) items),
             push '']''])"

definition node_or_default ::
  "(stack_ctx \<Rightarrow> node \<Rightarrow> ('l, 'p, unit) act) \<Rightarrow> stack_ctx \<Rightarrow> text_range \<Rightarrow>
   node option \<Rightarrow> node option \<Rightarrow> ('l, 'p, unit) act" where
  "node_or_default tn sctx txtrng index dflt =
     lazyness_incoming sctx Need Need Front (\<lambda>_.
       seqs [push (NIX_OR_DEFAULT @ ''(''),
             rtv tn (mksctx Nothing Want) txtrng index ''or-default without indexing operation'',
             push '','',
             rtv tn (mksctx Nothing Want) txtrng dflt ''or-default without default'',
             push '')''])"

definition is_wellknown :: "('l, 'p) ctx \<Rightarrow> node \<Rightarrow> bool" where
  "is_wellknown c slt =
     (case cast_ident slt of
        Some i \<Rightarrow> (case resolve_ident c i of Inr categ \<Rightarrow> is_global_categ categ | Inl _ \<Rightarrow> False)
      | None \<Rightarrow> False)"

definition node_select ::
  "('l, 'p) ext \<Rightarrow> (stack_ctx \<Rightarrow> node \<Rightarrow> ('l, 'p, unit) act) \<Rightarrow> stack_ctx \<Rightarrow> text_range \<Rightarrow>
   node option \<Rightarrow> node option \<Rightarrow> ('l, 'p, unit) act" where
  "node_select E tn sctx txtrng slt_opt index =
     (case index of
        None \<Rightarrow> throw (Err (range_debug E txtrng @ '': index for select missing''))
      | Some idx \<Rightarrow>
          (case slt_opt of
             None \<Rightarrow> throw (Err (range_debug E txtrng @ '': set for select missing''))
           | Some slt \<Rightarrow>
               bind (gets (\<lambda>c. is_wellknown c slt)) (\<lambda>wk.
               let xsctx = (if wk then mksctx Nothing Nothing else mksctx Want Nothing);
                   xtr = (if wk then Forward else Need)
               in lazyness_incoming sctx xtr xtr Front (\<lambda>_.
                    seqs [tn xsctx slt, translate_node_key_element_indexing E tn idx]))))"

subsection \<open>Strings and values\<close>

fun nonempty_part :: "node str_part \<Rightarrow> bool" where
  "nonempty_part (SpLiteral lit) = (lit \<noteq> [])"
| "nonempty_part (SpAst _ _) = True"

definition str_part_action ::
  "('l, 'p) ext \<Rightarrow> (stack_ctx \<Rightarrow> node \<Rightarrow> ('l, 'p, unit) act) \<Rightarrow>
   node str_part \<Rightarrow> ('l, 'p, unit) act" where
  "str_part_action E tn i =
     (case i of
        SpLiteral lit \<Rightarrow> push (escape_str E lit)
      | SpAst txtrng inner \<Rightarrow>
          seqs [push ''('',
                rtv tn (mksctx Want Nothing) txtrng inner ''inner for str-interpolate'',
                push '')''])"

definition str_concat ::
  "('l, 'p) ext \<Rightarrow> (stack_ctx \<Rightarrow> node \<Rightarrow> ('l, 'p, unit) act) \<Rightarrow> stack_ctx \<Rightarrow>
   node str_part list \<Rightarrow> ('l, 'p, unit) act" where
  "str_concat E tn sctx sxs =
     lazyness_incoming sctx Forward Need Front (\<lambda>_.
       seqs [push ''('',
             seqs_sep True (push ''+'')
               (map (str_part_action E tn) (filter nonempty_part sxs)),
             push '')''])"

definition node_str ::
  "('l, 'p) ext \<Rightarrow> (stack_ctx \<Rightarrow> node \<Rightarrow> ('l, 'p, unit) act) \<Rightarrow> stack_ctx \<Rightarrow>
   node str_part list \<Rightarrow> ('l, 'p, unit) act" where
  "node_str E tn sctx parts =
     (case parts of
        [] \<Rightarrow> push [CHR 0x22, CHR 0x22]
      | [SpLiteral lit] \<Rightarrow> push (escape_str E lit)
      | sxs \<Rightarrow> str_concat E tn sctx sxs)"

fun show_unop :: "unop_kind \<Rightarrow> string" where
  "show_unop Invert = ''Invert''"
| "show_unop Negate = ''Negate''"

definition node_unaryop ::
  "(stack_ctx \<Rightarrow> node \<Rightarrow> ('l, 'p, unit) act) \<Rightarrow> text_range \<Rightarrow>
   unop_kind \<Rightarrow> node option \<Rightarrow> ('l, 'p, unit) act" where
  "node_unaryop tn txtrng operator val =
     seqs [push (NIX_OPERATORS @ ''.u_'' @ show_unop operator @ ''(''),
           rtv tn (mksctx Nothing Nothing) txtrng val ''value for unary-op'',
           push '')'']"

definition node_value ::
  "('l, 'p) ext \<Rightarrow> text_range \<Rightarrow> string + nix_value \<Rightarrow> ('l, 'p, unit) act" where
  "node_value E txtrng v =
     (case v of
        Inl e \<Rightarrow> line_err txtrng (''value deserialization error: '' @ e)
      | Inr (VFloat flt) \<Rightarrow>
          (case number_from_f64 E flt of
             Some n \<Rightarrow> push (json_to_string E (JNumber n))
           | None \<Rightarrow> throw (Panic ''unrepr-able float''))
      | Inr (VInteger i) \<Rightarrow> push (json_to_string E (JNumber (JsInt i)))
      | Inr (VString s) \<Rightarrow> push (json_to_string E (JString s))
      | Inr (VPath anch path) \<Rightarrow>
          push (NIX_RUNTIME @ ''.export('' @ escape_str E anch @ '','' @ escape_str E path @ '')''))"

definition in_with :: "('l, 'p, unit) act \<Rightarrow> ('l, 'p, unit) act" where
  "in_with m =
     seqs [modify (\<lambda>c. c\<lparr>with_stack := with_stack c + 1\<rparr>),
           m,
           modify (\<lambda>c. c\<lparr>with_stack := with_stack c - 1\<rparr>)]"

definition node_with ::
  "(stack_ctx \<Rightarrow> node \<Rightarrow> ('l, 'p, unit) act) \<Rightarrow> text_range \<Rightarrow>
   node option \<Rightarrow> node option \<Rightarrow> ('l, 'p, unit) act" where
  "node_with tn txtrng namespace body =
     seqs [push (''(async '' @ NIX_IN_SCOPE @ ''=>(''),
           in_with (rtv tn (mksctx Want Nothing) txtrng body
             (''body for '' @ [CHR 0x27] @ ''with'' @ [CHR 0x27] @ '' scope'')),
           push (''))(nixBlti.mkScopeWith('' @ NIX_IN_SCOPE @ '',''),
           rtv tn (mksctx Want Nothing) txtrng namespace 
             (''namespace for '' @ [CHR 0x27] @ ''with'' @ [CHR 0x27] @ '' scope''),
           push ''))'']"


section \<open>The match, and the recursion\<close>

text \<open>
  \<open>translate_parsed\<close> is the match on the parsed node; its last argument is the
  node's \<open>ParsedType\<close>. The \<open>unreachable!\<close> arms panic.
\<close>

definition translate_parsed ::
  "('l, 'p) ext \<Rightarrow> (stack_ctx \<Rightarrow> node \<Rightarrow> ('l, 'p, unit) act) \<Rightarrow> stack_ctx \<Rightarrow> meta \<Rightarrow>
   node parsed_type \<Rightarrow> ('l, 'p, unit) act" where
  "translate_parsed E tn sctx m x =
    (let txtrng = m_rng m in
     case x of
       PtUnparsed k \<Rightarrow> bind (gets inp) (\<lambda>s.
         throw (Err (range_debug E txtrng @ '' (line '' @ show_nat (txtrng_to_lineno s txtrng) @
                     ''): unable to parse node of kind '' @ k)))
     | PtApply l v \<Rightarrow> node_apply tn sctx txtrng l v
     | PtAssert c b \<Rightarrow> node_assert E tn sctx txtrng c b
     | PtAttrSet r eh \<Rightarrow> translate_let E tn sctx True eh ExtractScope (attrset_scope r)
     | PtBinOp op lhs rhs \<Rightarrow> node_binop E tn sctx txtrng op lhs rhs
     | PtDynamic d \<Rightarrow> rtv tn sctx txtrng d ''inner for dynamic (key)''
     | PtError \<Rightarrow> throw (Panic ''unreachable'')
     | PtIdent s \<Rightarrow> void (translate_node_ident E (Some sctx) (Ident m s))
     | PtIfElse c b e \<Rightarrow> node_ifelse tn sctx txtrng c b e
     | PtInherit inh \<Rightarrow> translate_node_inherit E tn sctx inh (Some NIX_IN_SCOPE) None
     | PtInheritFrom i \<Rightarrow> rtv tn sctx txtrng i ''inner for inherit-from''
     | PtKey _ \<Rightarrow> throw (Panic ''standalone key not supported'')
     | PtKeyValue _ \<Rightarrow> throw (Panic ''standalone key-value not supported'')
     | PtLambda a b \<Rightarrow> node_lambda E tn txtrng (m_dbg m) a b
     | PtLegacyLet eh \<Rightarrow> node_legacy_let E tn sctx txtrng eh
     | PtLetIn eh b \<Rightarrow> node_let_in E tn sctx txtrng eh b
     | PtList l \<Rightarrow> node_list tn sctx l
     | PtOrDefault i d \<Rightarrow> node_or_default tn sctx txtrng i d
     | PtParen p \<Rightarrow> rtv tn sctx txtrng p ''inner for paren''
     | PtPathWithInterpol \<Rightarrow> throw (Panic ''standalone path-with-interpolation not supported'')
     | PtPattern _ \<Rightarrow> throw (Panic ''standalone pattern not supported'')
     | PtPatBind \<Rightarrow> throw (Panic ''standalone pattern @ bind not supported'')
     | PtPatEntry _ \<Rightarrow> throw (Panic ''standalone pattern entry not supported'')
     | PtRoot r \<Rightarrow> rtv tn sctx txtrng r ''inner for root''
     | PtSelect slt idx \<Rightarrow> node_select E tn sctx txtrng slt idx
     | PtStr parts \<Rightarrow> node_str E tn sctx parts
     | PtStrInterpol i \<Rightarrow> rtv tn (mksctx Want Nothing) txtrng i ''inner for str-interpolate''
     | PtUnaryOp op v \<Rightarrow> node_unaryop tn txtrng op v
     | PtValue v \<Rightarrow> node_value E txtrng v
     | PtWith ns b \<Rightarrow> node_with tn txtrng ns b)"

lemma pattern_entries_result:
  "pattern_entries d ps c = Inr (es, c') \<Longrightarrow> es = map (\<lambda>i. (the (pe_name i), pe_default i)) ps"
  by (induction ps arbitrary: c es) (auto simp: bind_eq_Inr tm_simps split: option.splits)

lemma lambda_pattern_cong:
  assumes pat: "\<And>s n. n \<in> set_pattern y \<Longrightarrow> tn s n = tn' s n"
    and body: "\<And>s n. b = Some n \<Longrightarrow> tn s n = tn' s n"
  shows "lambda_pattern E tn r y b = lambda_pattern E tn' r y b"
proof -
  have rtv: "rtv tn s r b d = rtv tn' s r b d" for s d
    by (intro rtv_cong refl body)
  have entry: "lambda_entry E tn a p = lambda_entry E tn' a p"
    if "p \<in> (\<lambda>i. (the (pe_name i), pe_default i)) ` set (pat_entries y)" for a p
  proof -
    have "snd p = Some n \<Longrightarrow> n \<in> set_pattern y" for n
      using that by (cases y) (force simp: pat_entry.set_sel)
    then show ?thesis
      using pat by (cases p) (auto simp: lambda_entry_def split: option.splits)
  qed
  have "map (lambda_entry E tn a) es = map (lambda_entry E tn' a) es"
    if "pattern_entries d (pat_entries y) c1 = Inr (es, c2)" for a d c1 es c2
    using entry pattern_entries_result [OF that] by auto
  note es = this
  show ?thesis
    unfolding lambda_pattern_def rtv
    by (rule bind_cong [OF refl], rule fun_cong, rule bind_cong [OF refl]) (simp only: es)
qed


lemma node_lambda_cong:
  assumes "\<And>s n. n \<in> set_option b \<Longrightarrow> tn s n = tn' s n"
    and "\<And>s n y. a = Some y \<Longrightarrow> n \<in> set_parsed_type (node_pt y) \<Longrightarrow> tn s n = tn' s n"
  shows "node_lambda E tn r d a b = node_lambda E tn' r d a b"
proof -
  have rtv: "rtv tn s r b d' = rtv tn' s r b d'" for s d'
    by (intro rtv_cong refl assms) simp
  have "lambda_pattern E tn r p b = lambda_pattern E tn' r p b"
    if "a = Some y" "cast_pattern y = Some p" for y p
  proof (rule lambda_pattern_cong)
    show "tn s n = tn' s n" if "n \<in> set_pattern p" for s n
      using assms(2) [OF \<open>a = Some y\<close>] \<open>cast_pattern y = Some p\<close> that
      by (cases y) (auto simp: cast_pattern_def split: parsed_type.splits)
  qed (simp add: assms)
  then show ?thesis
    unfolding node_lambda_def rtv by (auto split: option.splits)
qed


text \<open>
  The nodes on which an arm may call \<open>translate_node\<close>: the children, except that a
  lambda skips its argument node and goes to the defaults inside the pattern.
\<close>

definition subnodes :: "node parsed_type \<Rightarrow> node set" where
  "subnodes p = (case p of
     PtLambda a b \<Rightarrow> set_option b \<union> (\<Union>y \<in> set_option a. set_parsed_type (node_pt y))
   | _ \<Rightarrow> set_parsed_type p)"

lemma subnodes_children: "\<nexists>a b. p = PtLambda a b \<Longrightarrow> subnodes p = set_parsed_type p"
  by (cases p) (simp_all add: subnodes_def)

lemma size_subnode [termination_simp]:
  assumes "x \<in> subnodes p" shows "size x < Suc (size_parsed_type size p)"
proof (cases "\<exists>a b. p = PtLambda a b")
  case True
  then obtain a b where p: "p = PtLambda a b" by blast
  with assms consider "b = Some x" | y where "a = Some y" "x \<in> set_parsed_type (node_pt y)"
    by (auto simp: subnodes_def)
  then show ?thesis
  proof cases
    case 1
    then show ?thesis by (simp add: p)
  next
    case 2
    then have "size x < size y" by (cases y) (simp add: size_child)
    with 2 show ?thesis by (simp add: p)
  qed
next
  case False
  then show ?thesis using assms by (simp add: subnodes_children size_child)
qed

lemma node_subnodes_induct [case_names Node]:
  assumes "\<And>m p. (\<And>x. x \<in> subnodes p \<Longrightarrow> P x) \<Longrightarrow> P (Node m p)"
  shows "P n"
proof (induction n rule: measure_induct_rule [where f = size])
  case (less n)
  then show ?case by (cases n) (simp add: assms size_subnode)
qed

lemma is_body_value: "legacy_body eh = Some b \<Longrightarrow> b \<in> set_entry_holder eh"
proof -
  assume "legacy_body eh = Some b"
  then obtain k where "find is_body_entry (entries eh) = Some k" and "kv_value k = Some b"
    by (auto simp: legacy_body_def Option.bind_eq_Some_conv)
  then have "k \<in> set (entries eh)" "b \<in> set_key_value k"
    by (auto simp: find_Some_iff in_set_conv_nth key_value.set_sel)
  then show ?thesis by (rule set_entry_holder_entry)
qed

lemma str_parts_cong:
  assumes "\<And>s n p. p \<in> set ps \<Longrightarrow> n \<in> set_str_part p \<Longrightarrow> tn s n = tn' s n"
  shows "node_str E tn sctx ps = node_str E tn' sctx ps"
proof -
  have "str_part_action E tn p = str_part_action E tn' p" if "p \<in> set ps" for p
    using assms [OF that]
    by (auto simp: str_part_action_def split: str_part.splits
      intro!: arg_cong2 [where f = bind] rtv_cong)
  then have "map (str_part_action E tn) (filter nonempty_part ps) =
      map (str_part_action E tn') (filter nonempty_part ps)"
    by auto
  then have "str_concat E tn sctx ps = str_concat E tn' sctx ps"
    by (simp only: str_concat_def)
  then show ?thesis
    by (auto simp: node_str_def split: list.splits str_part.splits)
qed

lemma translate_parsed_cong [fundef_cong]:
  assumes "E = E'" "sctx = sctx'" "m = m'" "p = p'"
    and tn: "\<And>s n. n \<in> subnodes p' \<Longrightarrow> tn s n = tn' s n"
  shows "translate_parsed E tn sctx m p = translate_parsed E' tn' sctx' m' p'"
proof -
  have rtv: "rtv tn s r x d = rtv tn' s r x d" if "set_option x \<subseteq> subnodes p'" for s r x d
    by (rule rtv_cong) (use that tn in auto)
  have "translate_parsed E' tn sctx' m' p' = translate_parsed E' tn' sctx' m' p'"
  proof (cases p')
    case (PtAssert c b)
    then show ?thesis
      using rtv [of b] tn
      by (cases c) (simp_all add: subnodes_def translate_parsed_def Let_def node_assert_def subset_insertI)
  next
    case (PtAttrSet r eh)
    then show ?thesis
      using tn by (auto simp: subnodes_def translate_parsed_def Let_def intro!: translate_let_cong)
  next
    case (PtBinOp op l r)
    then show ?thesis
      using rtv [of l] rtv [of r] tn
      by (cases r) (simp_all add: subset_insertI subnodes_def translate_parsed_def Let_def node_binop_def split: option.splits binop_kind.splits)
  next
    case (PtInherit inh)
    then show ?thesis
      using tn by (auto simp: subnodes_def translate_parsed_def Let_def intro!: translate_node_inherit_cong)
  next
    case (PtLambda a b)
    then show ?thesis
      using tn by (auto simp: subnodes_def translate_parsed_def Let_def intro!: node_lambda_cong)
  next
    case (PtLegacyLet eh)
    then show ?thesis
      using tn by (auto simp: subnodes_def translate_parsed_def Let_def node_legacy_let_def is_body_value
        split: option.splits intro!: translate_let_cong)
  next
    case (PtLetIn eh b)
    then show ?thesis
      using tn by (auto simp: subnodes_def translate_parsed_def Let_def node_let_in_def
        split: option.splits intro!: translate_let_cong)
  next
    case (PtList l)
    then have "map (tn s) l = map (tn' s) l" for s using tn by (auto simp: subnodes_def)
    with PtList show ?thesis by (simp only: translate_parsed_def node_list_def parsed_type.case)
  next
    case (PtSelect slt idx)
    then have "translate_node_key_element_indexing E' tn i = translate_node_key_element_indexing E' tn' i"
      if "idx = Some i" for i
      using that tn by (intro key_element_indexing_cong refl) (simp add: subnodes_def)
    with PtSelect show ?thesis
      using tn by (auto simp: subnodes_def translate_parsed_def Let_def node_select_def split: option.splits)
  next
    case (PtStr ps)
    then show ?thesis
      using tn by (auto simp: subnodes_def translate_parsed_def Let_def intro!: str_parts_cong)
  qed (use rtv in \<open>simp_all add: subnodes_def translate_parsed_def Let_def node_apply_def node_ifelse_def
         node_or_default_def node_unaryop_def node_with_def sup.coboundedI1 sup.coboundedI2\<close>)
  then show ?thesis using assms(1-4) by simp
qed

fun translate_node ::
  "('l, 'p) ext \<Rightarrow> stack_ctx \<Rightarrow> node \<Rightarrow> ('l, 'p, unit) act" where
  "translate_node E sctx (Node m p) =
     (if m_trivia m then skip
      else bind (snapshot_pos E (fst (m_rng m)))
             (\<lambda>_. translate_parsed E (translate_node E) sctx m p))"

section \<open>The entry point\<close>

definition js_prologue :: string where
  "js_prologue = ''let '' @ NIX_OPERATORS @ ''=nixBlti.nixOp;let '' @ NIX_BUILTINS_RT @
     ''=nixBlti.initRtDep(nixRt);let '' @ NIX_IN_SCOPE @ ''=nixBlti.mkScopeWith();return ''"

definition init_ctx :: "('l, 'p) ext \<Rightarrow> string \<Rightarrow> ('l, 'p) ctx" where
  "init_ctx E s =
     \<lparr>inp = s, acc = js_prologue, vars = DFL_VARS, with_stack = 0, names = [], mappings = [],
      line_cache = lc_new E s, lp_src = (0, 0), lp_dst = pt_default E\<rparr>"

definition source_map_json :: "string \<Rightarrow> string list \<Rightarrow> string \<Rightarrow> json" where
  "source_map_json inp_name ns maps =
     JObject [(''version'', JNumber (JsInt 3)),
              (''sources'', JArray [JString inp_name]),
              (''names'', JArray (map JString ns)),
              (''mappings'', JString maps)]"

datatype translate_result =
    Translated string string
  | Errors "string list"
  | Panicked string

definition translate :: "('l, 'p) ext \<Rightarrow> string \<Rightarrow> string \<Rightarrow> translate_result" where
  "translate E s inp_name =
     (let (errs, root) = rnix_parse E s in
      if errs \<noteq> [] then Errors errs
      else (case translate_node E (mksctx Nothing Want) root (init_ctx E s) of
              Inl (Err e) \<Rightarrow> Errors [e]
            | Inl (Panic e) \<Rightarrow> Panicked e
            | Inr (_, c) \<Rightarrow>
                (case from_utf8 (mappings c) of
                   None \<Rightarrow> Panicked ''from_utf8''
                 | Some maps \<Rightarrow>
                     Translated (acc c @ '';'')
                       (json_to_string E (source_map_json inp_name (names c) maps)))))"

end
