(* ===== verification/Frame.thy ===== *)
theory Frame
  imports Translate
begin

text \<open>
  What a translation does to the context, proved once for every relation that
  the elementary steps respect. The locale \<open>ctx_rel\<close> lists what is asked of a
  relation; its conclusion is that \<open>translate_node\<close> respects it. The
  interpretations at the end give the frame properties of the translator: the
  variable stack and the depth of \<open>with\<close> are restored, the output, the name table
  and the mappings only grow, and which panics can occur.
\<close>

section \<open>Identifiers and panics of a tree\<close>

text \<open>The identifiers that a node carries outside of its child nodes.\<close>

definition holder_idents :: "node entry_holder \<Rightarrow> ident set" where
  "holder_idents eh = (\<Union>i \<in> set (inherits eh). set (inh_idents i))"

definition pattern_idents :: "node pattern \<Rightarrow> ident set" where
  "pattern_idents p = set_option (pat_at p) \<union> (\<Union>e \<in> set (pat_entries p). set_option (pe_name e))"

definition own_idents :: "node parsed_type \<Rightarrow> ident set" where
  "own_idents p = (case p of
     PtAttrSet _ eh \<Rightarrow> holder_idents eh
   | PtLegacyLet eh \<Rightarrow> holder_idents eh
   | PtLetIn eh _ \<Rightarrow> holder_idents eh
   | PtInherit i \<Rightarrow> set (inh_idents i)
   | PtLambda (Some y) _ \<Rightarrow>
       set_option (cast_ident y) \<union>
       (case cast_pattern y of Some q \<Rightarrow> pattern_idents q | None \<Rightarrow> {})
   | _ \<Rightarrow> {})"

text \<open>
  The panic that \<open>translate_node\<close> runs into on a node of this kind: the \<open>unreachable!\<close> arms, among
  them that of a path with an interpolation, and \<open>expect\<close> on a float that JSON cannot represent.
\<close>

definition panic_message :: "('l, 'p) ext \<Rightarrow> node parsed_type \<Rightarrow> string option" where
  "panic_message E p = (case p of
     PtError \<Rightarrow> Some ''unreachable''
   | PtKey _ \<Rightarrow> Some ''standalone key not supported''
   | PtKeyValue _ \<Rightarrow> Some ''standalone key-value not supported''
   | PtPathWithInterpol \<Rightarrow> Some ''standalone path-with-interpolation not supported''
   | PtPattern _ \<Rightarrow> Some ''standalone pattern not supported''
   | PtPatBind \<Rightarrow> Some ''standalone pattern @ bind not supported''
   | PtPatEntry _ \<Rightarrow> Some ''standalone pattern entry not supported''
   | PtValue (Inr (VFloat f)) \<Rightarrow>
       (case number_from_f64 E f of None \<Rightarrow> Some ''unrepr-able float'' | Some _ \<Rightarrow> None)
   | _ \<Rightarrow> None)"


lemma map_filter_mem: "y \<in> set (List.map_filter f xs) \<Longrightarrow> \<exists>x \<in> set xs. f x = Some y"
  by (auto simp: List.map_filter_def)


lemma first_key_mem: "first_key k = Some n \<Longrightarrow> n \<in> set_key_value k"
  by (cases k) (auto simp: first_key_def split: option.splits list.splits)

lemma object_entriesD:
  assumes "object_entries eh" "k \<in> set (entries eh)"
  obtains n v i where "kv_key k = Some [n]" "kv_value k = Some v" "cast_ident n = Some i"
proof -
  have "kv_value k \<noteq> None \<and> (case kv_key k of Some [n] \<Rightarrow> cast_ident n \<noteq> None | _ \<Rightarrow> False)"
    using assms by (simp add: object_entries_def list_all_iff)
  then show thesis using that by (auto split: option.split_asm list.split_asm)
qed


lemma pattern_entries_mem:
  assumes "pattern_entries d ps c = Inr (es, c')" "p \<in> set es"
  obtains e where "e \<in> set ps" "pe_name e = Some (fst p)" "pe_default e = snd p"
proof -
  have "\<exists>e \<in> set ps. pe_name e = Some (fst p) \<and> pe_default e = snd p"
    using assms
    by (induction ps arbitrary: c es) (fastforce simp: bind_eq_Inr tm_simps split: option.splits)+
  then show thesis using that by blast
qed


text \<open>Every key comes from an identifier of the bindings.\<close>

lemma getkeys_mem:
  assumes "(q, vn) \<in> set (getkeys eh)"
  obtains i where "q = id_rng i" "vn = as_str i" "i \<in> holder_idents eh"
  | i n where "q = id_rng i" "vn = as_str i" "n \<in> set_entry_holder eh" "cast_ident n = Some i"
proof -
  have "(q, vn) \<in> set (raw_keys eh)"
    using assms set_dedup_by_key_subset [of snd "sort_key snd (raw_keys eh)"]
    by (auto simp: getkeys_def)
  from map_filter_mem [OF this [unfolded raw_keys_def]]
  obtain n i where n: "n \<in> set (List.map_filter first_key (entries eh) @
      map ident_node (concat (map inh_idents (inherits eh))))"
    and i: "cast_ident n = Some i" "q = id_rng i" "vn = as_str i" by auto
  show thesis
  proof (cases "n \<in> set (List.map_filter first_key (entries eh))")
    case True
    from map_filter_mem [OF this] obtain k
      where k: "k \<in> set (entries eh)" "first_key k = Some n" by blast
    then have "n \<in> set_entry_holder eh" by (auto intro: set_entry_holder_entry first_key_mem)
    with i show thesis by (intro that(2))
  next
    case False
    with n i have "i \<in> holder_idents eh" by (auto simp: holder_idents_def)
    with i show thesis by (intro that(1))
  qed
qed

section \<open>Relations respected by the elementary steps\<close>

text \<open>
  \<open>R\<close> is to hold between the states before and after a node, \<open>Rv\<close> the weaker relation
  inside a scope, where variables have been pushed. \<open>I\<close> is an invariant of the states,
  \<open>F\<close> the admissible failures, \<open>N\<close> the admissible nodes and \<open>Rg\<close> the admissible ranges
  of identifiers.
\<close>

locale ctx_rel =
  fixes E :: "('l, 'p) ext"
    and I :: "('l, 'p) ctx \<Rightarrow> bool"
    and R Rv :: "('l, 'p) ctx \<Rightarrow> ('l, 'p) ctx \<Rightarrow> bool"
    and F :: "fail \<Rightarrow> bool"
    and N :: "node \<Rightarrow> bool"
    and Rg :: "text_range \<Rightarrow> bool"
  assumes R_refl: "R c c"
    and R_trans: "R c c' \<Longrightarrow> R c' c'' \<Longrightarrow> R c c''"
    and Rv_refl: "Rv c c"
    and Rv_trans: "Rv c c' \<Longrightarrow> Rv c' c'' \<Longrightarrow> Rv c c''"
    and R_Rv: "R c c' \<Longrightarrow> Rv c c'"
    and step_push: "tm_rel I R F (push s)"
    and step_pos: "tm_rel I R F (snapshot_pos E n)"
    and step_name: "Rg r \<Longrightarrow> tm_rel I R F (snapshot_ident E r (push s))"
    and step_var: "tm_rel I Rv F (push_var vn categ)"
    and step_scope: "tm_rel I Rv F m \<Longrightarrow> tm_rel I R F (scoped m)"
    and step_with: "tm_rel I R F m \<Longrightarrow> tm_rel I R F (in_with m)"
    and fail_err: "F (Err msg)"
    and node_sub: "N (Node mt p) \<Longrightarrow> \<not> m_trivia mt \<Longrightarrow> x \<in> subnodes p \<Longrightarrow> N x"
    and node_rng: "N nd \<Longrightarrow> Rg (text_range nd)"
    and node_idents: "N (Node mt p) \<Longrightarrow> i \<in> own_idents p \<Longrightarrow> Rg (id_rng i)"
    and node_panic: "N (Node mt p) \<Longrightarrow> \<not> m_trivia mt \<Longrightarrow> panic_message E p = Some msg \<Longrightarrow> F (Panic msg)"
begin

sublocale r: preorder_rel R
  by unfold_locales (fact R_refl, fact R_trans)

sublocale rv: preorder_rel Rv
  by unfold_locales (fact Rv_refl, fact Rv_trans)

lemma to_Rv: "tm_rel I R F m \<Longrightarrow> tm_rel I Rv F m"
  by (erule tm_rel_weaken) (rule R_Rv)

lemma throw_Err: "tm_rel I R F (throw (Err e))"
  by (simp add: tm_rel_throw fail_err)

lemma rel_line_err: "tm_rel I R F (line_err q msg)"
  unfolding line_err_def by (intro r.rel_bind r.rel_gets throw_Err)

lemma rel_lazyness:
  "(\<And>s. tm_rel I R F (m s)) \<Longrightarrow> tm_rel I R F (lazyness_incoming sctx at lt adj m)"
  unfolding lazyness_incoming_eq by (intro r.rel_bind step_push r.rel_ret)

lemma rel_rtv: "(\<And>n. x = Some n \<Longrightarrow> tm_rel I R F (tn s n)) \<Longrightarrow> tm_rel I R F (rtv tn s q x d)"
  unfolding rtv_def by (auto split: option.splits intro: r.rel_bind r.rel_gets throw_Err)


subsection \<open>Identifiers\<close>

lemma rel_escape_str: "Rg (id_rng i) \<Longrightarrow> tm_rel I R F (translate_node_ident_escape_str E i)"
  unfolding translate_node_ident_escape_str_def Let_def
  by (intro r.rel_bind step_name r.rel_ret)

lemma rel_indexing: "Rg (id_rng i) \<Longrightarrow> tm_rel I R F (translate_node_ident_indexing E i)"
  unfolding translate_node_ident_indexing_def Let_def
  by (intro r.rel_bind step_name r.rel_ret)

lemma rel_acc_from: "tm_rel I R F (acc_from n)"
  unfolding acc_from_def by (rule r.rel_gets)

lemma rel_handle_lazyness: "tm_rel I R F m \<Longrightarrow> tm_rel I R F (handle_lazyness sctx m)"
  unfolding handle_lazyness_def
  by (cases sctx) (auto intro!: rel_lazyness r.rel_bind r.rel_gets r.rel_ret rel_acc_from)

lemma rel_ident_raw: "Rg q \<Longrightarrow> tm_rel I R F (translate_node_ident_raw E sctx q vn categ)"
  unfolding translate_node_ident_raw_def Let_def
  by (auto intro!: r.rel_bind r.rel_gets r.rel_ret step_name rel_handle_lazyness
    rel_acc_from split: option.split)

lemma rel_ident: "Rg (id_rng i) \<Longrightarrow> tm_rel I R F (translate_node_ident E sctx i)"
  unfolding translate_node_ident_def
  by (auto intro!: r.rel_bind r.rel_gets throw_Err rel_ident_raw split: sum.split)

lemma cast_ident_rng: "cast_ident n = Some i \<Longrightarrow> id_rng i = text_range n"
  by (auto simp: cast_ident_Some ident_node_def split: ident.splits)

lemma rel_force_str:
  "Rg (text_range n) \<Longrightarrow> (\<And>s. tm_rel I R F (tn s n)) \<Longrightarrow>
   tm_rel I R F (translate_node_key_element_force_str E tn n)"
  unfolding translate_node_key_element_force_str_def
  by (auto intro!: r.rel_void rel_escape_str dest: cast_ident_rng split: option.split)

lemma rel_key_indexing:
  "Rg (text_range n) \<Longrightarrow> (\<And>s. tm_rel I R F (tn s n)) \<Longrightarrow>
   tm_rel I R F (translate_node_key_element_indexing E tn n)"
  unfolding translate_node_key_element_indexing_def
  by (auto intro!: r.rel_void r.rel_bind rel_indexing step_push dest: cast_ident_rng split: option.split)

lemma rel_scope_indexing:
  "Rg (text_range n) \<Longrightarrow> (\<And>s. tm_rel I R F (tn s n)) \<Longrightarrow>
   tm_rel I R F (translate_node_scope_indexing E tn n sc)"
  unfolding translate_node_scope_indexing_def
  by (auto intro!: r.rel_void r.rel_bind rel_key_indexing rel_ident step_push throw_Err
    dest: cast_ident_rng split: option.split)

lemma rel_scope_indexing_ident:
  "Rg (id_rng i) \<Longrightarrow> tm_rel I R F (translate_node_scope_indexing E tn (ident_node i) sc)"
  unfolding translate_node_scope_indexing_def translate_node_key_element_indexing_def
  by (auto intro!: r.rel_void r.rel_bind rel_indexing rel_ident step_push split: option.split)

subsection \<open>Entries and bindings\<close>

lemma rel_kv:
  assumes "\<And>s n. n \<in> set_key_value i \<Longrightarrow> tm_rel I R F (tn s n)"
    and "\<And>n. n \<in> set_key_value i \<Longrightarrow> Rg (text_range n)"
  shows "tm_rel I R F (translate_node_kv E tn vs i sc)"
  using assms unfolding translate_node_kv_def
  by (cases i)
    (auto intro!: rel_line_err r.rel_bind r.rel_ret r.rel_seqs step_push rel_scope_indexing
      rel_force_str rel_key_indexing split: option.split list.split)

lemma rel_inherit_from_one:
  assumes "\<And>s n. n \<in> set_inherit_from f \<Longrightarrow> tm_rel I R F (tn s n)" "Rg (id_rng i)"
  shows "tm_rel I R F (inherit_from_one E tn f i)"
  unfolding inherit_from_one_def
  by (cases f) (use assms in \<open>auto intro!: r.rel_bind r.rel_void rel_rtv rel_indexing\<close>)

lemma rel_inherit:
  assumes tn: "\<And>s n. n \<in> set_inherit i \<Longrightarrow> tm_rel I R F (tn s n)"
    and rg: "\<And>j. j \<in> set (inh_idents i) \<Longrightarrow> Rg (id_rng j)"
  shows "tm_rel I R F (translate_node_inherit E tn vs i sc u)"
proof (cases "inh_from i")
  case None
  then show ?thesis
    unfolding translate_node_inherit_def
    by (auto intro!: r.rel_seqs r.rel_bind r.rel_void rel_scope_indexing_ident rel_ident step_push rg)
next
  case (Some f)
  have f: "tm_rel I R F (tn s n)" if "n \<in> set_inherit_from f" for s n
    using tn that Some by (cases i) auto
  then have rtv: "tm_rel I R F (rtv tn s q (inhf_inner f) d)" for s q d
    by (cases f) (auto intro: rel_rtv)
  show ?thesis
    using Some rg f unfolding translate_node_inherit_def
    by (auto intro!: rtv r.rel_seqs r.rel_bind r.rel_void r.rel_ret rel_scope_indexing_ident rel_indexing
      step_push rel_lazyness rel_inherit_from_one split: list.split option.split)
qed

text \<open>What is asked of the entries: their nodes are translated within the relation.\<close>

lemma rel_let_entries:
  assumes tn: "\<And>s n. n \<in> set_entry_holder eh \<Longrightarrow> tm_rel I R F (tn s n)"
    and rg: "\<And>n. n \<in> set_entry_holder eh \<Longrightarrow> Rg (text_range n)"
    and ids: "\<And>j. j \<in> holder_idents eh \<Longrightarrow> Rg (id_rng j)"
  shows "tm_rel I R F (let_entries E tn vs eh sc)"
proof -
  have "tm_rel I R F (translate_node_kv E tn vs k sc)" if "k \<in> set (entries eh)" for k
    by (rule rel_kv) (use tn rg set_entry_holder_entry [OF that] in auto)
  moreover have "tm_rel I R F (translate_node_inherit E tn vs i sc u)"
    if "i \<in> set (inherits eh)" for i u
    by (rule rel_inherit)
      (use tn ids set_entry_holder_inherit [OF that] that in \<open>auto simp: holder_idents_def\<close>)
  ultimately show ?thesis
    unfolding let_entries_def
    by (auto intro!: r.rel_bind r.rel_seqs simp: in_set_enumerate_eq)
qed

lemma getkeys_rng:
  assumes "(q, vn) \<in> set (getkeys eh)"
    and rg: "\<And>n. n \<in> set_entry_holder eh \<Longrightarrow> Rg (text_range n)"
    and ids: "\<And>j. j \<in> holder_idents eh \<Longrightarrow> Rg (id_rng j)"
  shows "Rg q"
  using getkeys_mem [OF assms(1)] rg ids cast_ident_rng by metis

lemma rel_let_object:
  assumes tn: "\<And>s n. n \<in> set_entry_holder eh \<Longrightarrow> tm_rel I R F (tn s n)"
    and rg: "\<And>n. n \<in> set_entry_holder eh \<Longrightarrow> Rg (text_range n)"
    and ids: "\<And>j. j \<in> holder_idents eh \<Longrightarrow> Rg (id_rng j)"
    and obj: "object_entries eh"
  shows "tm_rel I R F (let_object E tn vs eh)"
proof -
  have "tm_rel I R F (let_object_entry E tn vs k)" if k: "k \<in> set (entries eh)" for k
  proof -
    from object_entriesD [OF obj k] obtain n v i
      where kv: "kv_key k = Some [n]" "kv_value k = Some v" "cast_ident n = Some i" .
    then have "n \<in> set_key_value k" "v \<in> set_key_value k" by (cases k; auto)+
    with set_entry_holder_entry [OF k] tn rg cast_ident_rng [OF kv(3)] show ?thesis
      by (auto simp: let_object_entry_def first_key_def kv
        intro!: r.rel_bind r.rel_void rel_escape_str step_push)
  qed
  moreover have "tm_rel I R F (let_object_inherit E tn vs p)" if "p \<in> set (inherit_pairs eh)" for p
  proof -
    obtain i f where p: "p = (i, f)" by fastforce
    with that obtain inh where inh: "inh \<in> set (inherits eh)" "inh_from inh = f" "i \<in> set (inh_idents inh)"
      by (auto elim: inherit_pairs_mem)
    have "Rg (id_rng i)" using ids inh by (auto simp: holder_idents_def)
    moreover have "tm_rel I R F (tn s n)" if "f = Some g" "n \<in> set_inherit_from g" for s n g
      by (rule tn, rule set_entry_holder_inherit [OF inh(1)]) (use that inh in \<open>cases inh; auto\<close>)
    ultimately show ?thesis
      by (auto simp: let_object_inherit_def p split: option.split intro!: r.rel_bind r.rel_void
        rel_escape_str step_push rel_lazyness rel_inherit_from_one rel_ident)
  qed
  ultimately show ?thesis
    unfolding let_object_def by (auto intro!: r.rel_bind r.rel_seqs_sep step_push)
qed

lemma rel_let_return:
  assumes "\<And>s n. b = LetNix n \<Longrightarrow> tm_rel I R F (tn s n)"
  shows "tm_rel I R F (let_return tn b sc)"
  unfolding let_return_def
  using assms by (auto intro!: r.rel_bind step_push split: let_body.split)

lemma rel_translate_let:
  assumes tn: "\<And>s n. n \<in> set_entry_holder eh \<Longrightarrow> tm_rel I R F (tn s n)"
    and rg: "\<And>n. n \<in> set_entry_holder eh \<Longrightarrow> Rg (text_range n)"
    and ids: "\<And>j. j \<in> holder_idents eh \<Longrightarrow> Rg (id_rng j)"
    and b: "\<And>s n. b = LetNix n \<Longrightarrow> tm_rel I R F (tn s n)"
  shows "tm_rel I R F (translate_let E tn s vl eh b sc)"
proof -
  note [intro!] = rel_let_entries [OF tn rg ids] rel_let_return [OF b]
  have decl: "tm_rel I Rv F (let_declare E p)" if "p \<in> set (getkeys eh)" for p
  proof -
    obtain q vn where p: "p = (q, vn)" by fastforce
    with that rg ids have "Rg q" by (auto dest: getkeys_rng)
    then show ?thesis
      unfolding let_declare_def p prod.case
      by (auto intro!: rv.rel_bind rv.rel_void to_Rv [OF rel_ident_raw] step_var)
  qed
  have "tm_rel I R F (let_vars E tn vs eh b sc)" for vs
    unfolding let_vars_def
    by (auto intro!: step_scope rv.rel_bind rv.rel_seqs_sep to_Rv [OF step_push] decl
      to_Rv [OF rel_let_entries [OF tn rg ids]] to_Rv [OF rel_let_return [OF b]])
  moreover have "tm_rel I R F (let_scope E tn vs eh b sc)" for vs
    unfolding let_scope_def
    by (auto intro!: r.rel_bind step_push step_scope rv.rel_bind rv.rel_seqs rv.rel_ret step_var
      to_Rv [OF step_push] to_Rv [OF rel_let_entries [OF tn rg ids]] to_Rv [OF rel_let_return [OF b]])
  moreover have "tm_rel I R F (let_object E tn vs eh)" if "object_entries eh" for vs
    using that tn rg ids by (intro rel_let_object)
  ultimately show ?thesis
    unfolding translate_let_def Let_def
    by (auto intro!: rel_lazyness step_push b split: let_body.split)
qed


subsection \<open>The arms\<close>

lemma rel_apply:
  assumes "\<And>s n. n \<in> set_option l \<union> set_option v \<Longrightarrow> tm_rel I R F (tn s n)"
  shows "tm_rel I R F (node_apply tn sctx q l v)"
  unfolding node_apply_def using assms
  by (auto intro!: rel_lazyness r.rel_bind step_push rel_rtv)

lemma rel_assert:
  assumes "\<And>s n. n \<in> set_option cnd \<union> set_option b \<Longrightarrow> tm_rel I R F (tn s n)"
  shows "tm_rel I R F (node_assert E tn sctx q cnd b)"
  unfolding node_assert_def using assms
  by (auto intro!: rel_lazyness r.rel_bind r.rel_gets step_push rel_rtv rel_line_err split: option.split)

lemma rel_binop:
  assumes "\<And>s n. n \<in> set_option l \<union> set_option rh \<Longrightarrow> tm_rel I R F (tn s n)"
    and "\<And>n. rh = Some n \<Longrightarrow> Rg (text_range n)"
  shows "tm_rel I R F (node_binop E tn sctx q op l rh)"
  unfolding node_binop_def using assms
  by (auto intro!: rel_lazyness r.rel_bind r.rel_void step_push rel_rtv rel_line_err rel_escape_str
    dest: cast_ident_rng split: option.split binop_kind.split)

lemma rel_ifelse:
  assumes "\<And>s n. n \<in> set_option cnd \<union> set_option b \<union> set_option e \<Longrightarrow> tm_rel I R F (tn s n)"
  shows "tm_rel I R F (node_ifelse tn sctx q cnd b e)"
  unfolding node_ifelse_def using assms
  by (auto intro!: rel_lazyness r.rel_bind step_push rel_rtv)

lemma rel_pattern_entries: "tm_rel I Rv F (pattern_entries d ps)"
  by (induction ps)
    (auto intro!: rv.rel_bind rv.rel_ret step_var to_Rv [OF throw_Err] split: option.split)

lemma rel_lambda_pattern:
  assumes tn: "\<And>s n. n \<in> set_pattern y \<union> set_option b \<Longrightarrow> tm_rel I R F (tn s n)"
    and ids: "\<And>i. i \<in> pattern_idents y \<Longrightarrow> Rg (id_rng i)"
  shows "tm_rel I Rv F (lambda_pattern E tn q y b)"
proof -
  have name: "tm_rel I Rv F (lambda_argname E (pat_at y))"
    using ids unfolding lambda_argname_def pattern_idents_def
    by (auto intro!: rv.rel_bind rv.rel_ret step_var to_Rv [OF step_push] to_Rv [OF rel_ident]
      split: option.split)
  have entry: "tm_rel I R F (lambda_entry E tn a p)"
    if "pattern_entries d (pat_entries y) c = Inr (es, c')" "p \<in> set es" for a d c c' es p
  proof -
    from pattern_entries_mem [OF that] obtain e
      where e: "e \<in> set (pat_entries y)" "pe_name e = Some (fst p)" "pe_default e = snd p" .
    then have "fst p \<in> pattern_idents y" by (auto simp: pattern_idents_def)
    moreover have "snd p = Some n \<Longrightarrow> n \<in> set_pattern y" for n
      using e by (cases y) (auto intro!: bexI [of _ e] simp: pat_entry.set_sel)
    ultimately show ?thesis
      using tn ids by (cases p) (auto simp: lambda_entry_def split: option.split intro!: r.rel_bind
        r.rel_ret r.rel_void step_push rel_ident rel_escape_str)
  qed
  show ?thesis
    unfolding lambda_pattern_def
    by (rule rv.rel_bind [OF name], rule rv.rel_bind_res [OF rel_pattern_entries], rule to_Rv)
      (use tn in \<open>auto intro!: r.rel_bind r.rel_seqs step_push rel_rtv entry\<close>)
qed

lemma rel_lambda:
  assumes tn: "\<And>s n. n \<in> subnodes (PtLambda a b) \<Longrightarrow> tm_rel I R F (tn s n)"
    and ids: "\<And>i. i \<in> own_idents (PtLambda a b) \<Longrightarrow> Rg (id_rng i)"
  shows "tm_rel I R F (node_lambda E tn q d a b)"
proof (cases a)
  case None
  then show ?thesis by (simp add: node_lambda_def throw_Err)
next
  case (Some y)
  have body: "tm_rel I R F (rtv tn s q b desc)" for s desc
    by (rule rel_rtv) (simp add: tn subnodes_def)
  have "tm_rel I Rv F (lambda_pattern E tn q pt b)" if "cast_pattern y = Some pt" for pt
  proof (rule rel_lambda_pattern)
    show "tm_rel I R F (tn s n)" if "n \<in> set_pattern pt \<union> set_option b" for s n
      using tn that \<open>cast_pattern y = Some pt\<close> Some
      by (cases y) (auto simp: subnodes_def cast_pattern_def split: parsed_type.splits)
    show "Rg (id_rng i)" if "i \<in> pattern_idents pt" for i
      using ids that \<open>cast_pattern y = Some pt\<close> Some by (simp add: own_idents_def)
  qed
  moreover have "Rg (id_rng i)" if "cast_ident y = Some i" for i
    using ids that Some by (simp add: own_idents_def)
  ultimately show ?thesis
    unfolding node_lambda_def Some
    by (auto intro!: r.rel_bind step_push step_scope rv.rel_bind rv.rel_void step_var throw_Err
      to_Rv [OF step_push] to_Rv [OF rel_ident] to_Rv [OF body] split: option.split)
qed

lemma rel_list:
  "(\<And>s n. n \<in> set l \<Longrightarrow> tm_rel I R F (tn s n)) \<Longrightarrow> tm_rel I R F (node_list tn sctx l)"
  unfolding node_list_def by (auto intro!: rel_lazyness r.rel_bind r.rel_seqs_sep step_push)

lemma rel_or_default:
  assumes "\<And>s n. n \<in> set_option i \<union> set_option d \<Longrightarrow> tm_rel I R F (tn s n)"
  shows "tm_rel I R F (node_or_default tn sctx q i d)"
  unfolding node_or_default_def using assms
  by (auto intro!: rel_lazyness r.rel_bind step_push rel_rtv)

lemma rel_select:
  assumes "\<And>s n. n \<in> set_option slt \<union> set_option idx \<Longrightarrow> tm_rel I R F (tn s n)"
    and "\<And>n. idx = Some n \<Longrightarrow> Rg (text_range n)"
  shows "tm_rel I R F (node_select E tn sctx q slt idx)"
  unfolding node_select_def Let_def using assms
  by (auto intro!: rel_lazyness r.rel_bind r.rel_gets throw_Err rel_key_indexing split: option.split)

lemma rel_str:
  assumes "\<And>s n p. p \<in> set ps \<Longrightarrow> n \<in> set_str_part p \<Longrightarrow> tm_rel I R F (tn s n)"
  shows "tm_rel I R F (node_str E tn sctx ps)"
proof -
  have "tm_rel I R F (str_part_action E tn p)" if "p \<in> set ps" for p
    unfolding str_part_action_def using assms [OF that]
    by (auto intro!: r.rel_bind step_push rel_rtv split: str_part.split)
  then have "tm_rel I R F (str_concat E tn sctx ps)"
    unfolding str_concat_def by (auto intro!: rel_lazyness r.rel_bind r.rel_seqs_sep step_push)
  then show ?thesis
    unfolding node_str_def by (auto intro!: step_push split: list.split str_part.split)
qed

lemma rel_unaryop:
  "(\<And>s n. v = Some n \<Longrightarrow> tm_rel I R F (tn s n)) \<Longrightarrow> tm_rel I R F (node_unaryop tn q op v)"
  unfolding node_unaryop_def by (auto intro!: r.rel_bind step_push rel_rtv)

lemma rel_value:
  assumes "\<And>msg. panic_message E (PtValue v) = Some msg \<Longrightarrow> F (Panic msg)"
  shows "tm_rel I R F (node_value E q v)"
  unfolding node_value_def using assms
  by (auto intro!: step_push rel_line_err tm_rel_throw simp: panic_message_def
    split: sum.split nix_value.split option.split)

lemma rel_with:
  assumes "\<And>s n. n \<in> set_option ns \<union> set_option b \<Longrightarrow> tm_rel I R F (tn s n)"
  shows "tm_rel I R F (node_with tn q ns b)"
  unfolding node_with_def using assms
  by (auto intro!: r.rel_bind step_push rel_rtv step_with)


subsection \<open>The conclusion\<close>

lemma rel_translate_parsed:
  assumes N: "N (Node mt p)" and nt: "\<not> m_trivia mt"
    and tn: "\<And>s n. n \<in> subnodes p \<Longrightarrow> tm_rel I R F (tn s n)"
  shows "tm_rel I R F (translate_parsed E tn sctx mt p)"
proof -
  have rg: "\<And>n. n \<in> subnodes p \<Longrightarrow> Rg (text_range n)" using node_rng node_sub [OF N nt] by blast
  have ids: "\<And>i. i \<in> own_idents p \<Longrightarrow> Rg (id_rng i)" by (rule node_idents [OF N])
  have panic: "panic_message E p = Some msg \<Longrightarrow> tm_rel I R F (throw (Panic msg))" for msg
    by (rule tm_rel_throw, rule node_panic [OF N nt])
  have rtv: "set_option x \<subseteq> subnodes p \<Longrightarrow> tm_rel I R F (rtv tn s q x d)" for s q x d
    by (rule rel_rtv, rule tn) auto
  show ?thesis
  proof (cases p)
    case (PtLambda a b)
    then show ?thesis using tn ids by (auto simp: translate_parsed_def Let_def intro!: rel_lambda)
  next
    case (PtLegacyLet eh)
    then show ?thesis
      using tn rg ids
      by (auto simp: translate_parsed_def Let_def node_legacy_let_def subnodes_def own_idents_def
        is_body_value intro!: rel_translate_let rel_line_err split: option.split)
  next
    case (PtValue v)
    then show ?thesis
      using node_panic [OF N nt] by (auto simp: translate_parsed_def Let_def intro!: rel_value)
  next
    case (PtStr ps)
    then show ?thesis using tn by (auto simp: translate_parsed_def Let_def subnodes_def intro!: rel_str)
  next
    case (PtUnparsed k)
    then show ?thesis by (auto simp: translate_parsed_def Let_def intro!: r.rel_bind r.rel_gets throw_Err)
  next
    case (PtIdent s)
    then show ?thesis
      using node_rng [OF N] by (auto simp: translate_parsed_def Let_def intro!: r.rel_void rel_ident)
  qed (use tn rg ids in \<open>auto simp: translate_parsed_def Let_def subnodes_def own_idents_def
        node_let_in_def panic_message_def intro!: rel_apply rel_assert rel_binop rel_ifelse rel_list
        rel_or_default rel_select rel_unaryop rel_with rel_translate_let rel_inherit rel_line_err
        rel_rtv panic split: option.split\<close>)
qed

theorem rel_translate_node: "N n \<Longrightarrow> tm_rel I R F (translate_node E sctx n)"
proof (induction n arbitrary: sctx rule: node_subnodes_induct)
  case (Node mt p)
  then have "tm_rel I R F (translate_parsed E (translate_node E) sctx mt p)" if "\<not> m_trivia mt"
    using node_sub that by (intro rel_translate_parsed) auto
  then show ?case by (auto intro: r.rel_bind r.rel_ret step_pos)
qed

end

end
