(* ===== verification/Frame_Instances.thy ===== *)
theory Frame_Instances
  imports Frame
begin

text \<open>
  The interpretations of the locale \<open>ctx_rel\<close>: the variable stack and the \<open>with\<close>
  depth are restored by every node, output, names and mappings only grow, and the only
  panics are those of a node in the tree and of a position that does not fit its integer
  type.
\<close>

section \<open>What the recorder changes\<close>

text \<open>The bytes that occur in \<open>mappings\<close>.\<close>

definition mapping_alphabet :: "('l, 'p) ext \<Rightarrow> char set" where
  "mapping_alphabet E = {CHR '';'', CHR '',''} \<union> (\<Union>i. set (vlq_encode E i))"

lemma vlq_alphabet: "set (vlq_encode E i) \<subseteq> mapping_alphabet E"
  by (auto simp: mapping_alphabet_def)

lemma segment_alphabet: "set (segment_bytes E maps dl dc sl sc) \<subseteq> mapping_alphabet E"
  using vlq_alphabet [of E] by (auto simp: segment_bytes_def) (auto simp: mapping_alphabet_def)

text \<open>
  \<open>snapshot_pos\<close> and \<open>snapshot_ident\<close> for any relation that allows the recorder's
  fields to change.
\<close>

locale recorder_rel = preorder_rel R
  for R :: "('l, 'p) ctx \<Rightarrow> ('l, 'p) ctx \<Rightarrow> bool" +
  fixes E :: "('l, 'p) ext" and I :: "('l, 'p) ctx \<Rightarrow> bool" and F :: "fail \<Rightarrow> bool"
  assumes upd_cache: "I c \<Longrightarrow> I (c\<lparr>line_cache := l\<rparr>) \<and> R c (c\<lparr>line_cache := l\<rparr>)"
    and upd_lp: "I c \<Longrightarrow> I (c\<lparr>lp_src := a, lp_dst := b\<rparr>) \<and> R c (c\<lparr>lp_src := a, lp_dst := b\<rparr>)"
    and upd_mappings: "I c \<Longrightarrow> set s \<subseteq> mapping_alphabet E \<Longrightarrow>
      I (c\<lparr>mappings := mappings c @ s\<rparr>) \<and> R c (c\<lparr>mappings := mappings c @ s\<rparr>)"
    and upd_names: "I c \<Longrightarrow> x \<notin> set (names c) \<Longrightarrow>
      I (c\<lparr>names := names c @ [x]\<rparr>) \<and> R c (c\<lparr>names := names c @ [x]\<rparr>)"
    and fail_i64: "F (Panic ''i64::try_from'')"
    and fail_u32: "F (Panic ''u32::try_from'')"
begin

lemma rec_i64: "tm_rel I R F (i64_try_from n)"
  unfolding i64_try_from_def by (auto intro: rel_ret tm_rel_throw fail_i64)

lemma rec_u32: "tm_rel I R F (u32_try_from i)"
  unfolding u32_try_from_def by (auto intro: rel_ret tm_rel_throw fail_u32)

lemma rec_put: "set s \<subseteq> mapping_alphabet E \<Longrightarrow> tm_rel I R F (put_mappings s)"
  unfolding put_mappings_def by (rule tm_rel_modify) (rule upd_mappings)

lemma rec_pos: "tm_rel I R F (snapshot_pos E n)"
  unfolding snapshot_pos_def Let_def
  by (auto intro!: rel_bind rel_gets rel_ret rec_i64 rec_u32 rec_put [OF segment_alphabet]
      tm_rel_modify upd_cache [THEN conjunct1]
      upd_cache [THEN conjunct2] upd_lp [THEN conjunct1] upd_lp [THEN conjunct2]
    split: prod.split option.split)

lemma rec_intern: "tm_rel I R F (intern_name x)"
proof (rule tm_relI)
  fix s e assume "intern_name x s = Inl e"
  then show "F e" by (auto simp: intern_name_def bind_eq_Inl tm_simps split: option.splits)
next
  fix s n s' assume "I s" "intern_name x s = Inr (n, s')"
  then show "I s' \<and> R s s'"
    using upd_names [OF \<open>I s\<close> find_index_None] rel_refl [of s]
    by (auto simp: intern_name_def bind_eq_Inr tm_simps split: option.splits)
qed

lemma rec_record:
  assumes "\<And>c. I c \<Longrightarrow> F (Panic ''slice'') \<or> str_slice (inp c) r \<noteq> None"
  shows "tm_rel I R F (record_name E r)"
proof -
  have "tm_rel I R F (bind (intern_name ident) (\<lambda>idx.
      bind (i64_try_from idx) (\<lambda>i. put_mappings (vlq_encode E i))))" for ident
    by (intro rel_bind rec_intern rec_i64 rec_put vlq_alphabet)
  then show ?thesis
    using assms unfolding record_name_def tm_rel_def bind_apply [of "gets inp"]
    by (fastforce simp: tm_simps split: option.splits)
qed

lemma rec_ident:
  assumes "tm_rel I R F m"
    and "\<And>c. I c \<Longrightarrow> F (Panic ''slice'') \<or> str_slice (inp c) r \<noteq> None"
  shows "tm_rel I R F (snapshot_ident E r m)"
  unfolding snapshot_ident_def
  by (intro rel_bind rec_pos assms(1)) (auto intro: rel_ret rec_record [OF assms(2)])

end


section \<open>Scopes nest\<close>

definition stack_eq :: "('l, 'p) ctx \<Rightarrow> ('l, 'p) ctx \<Rightarrow> bool" where
  "stack_eq c c' \<longleftrightarrow> inp c' = inp c \<and> vars c' = vars c \<and> with_stack c' = with_stack c"

definition stack_ext :: "('l, 'p) ctx \<Rightarrow> ('l, 'p) ctx \<Rightarrow> bool" where
  "stack_ext c c' \<longleftrightarrow> inp c' = inp c \<and> prefix (vars c) (vars c') \<and> with_stack c' = with_stack c"

lemma scoped_rel:
  assumes "tm_rel I Rv F m"
    and "\<And>c c'. I c \<Longrightarrow> I c' \<Longrightarrow> Rv c c' \<Longrightarrow>
      (if length (vars c) \<le> length (vars c')
       then I (c'\<lparr>vars := take (length (vars c)) (vars c')\<rparr>) \<and>
            R c (c'\<lparr>vars := take (length (vars c)) (vars c')\<rparr>)
       else F (Panic ''assertion failed: vars.len() >= orig_vstkl''))"
  shows "tm_rel I R F (scoped m)"
proof (rule tm_relI)
  fix c e assume c: "I c" "scoped m c = Inl e"
  then consider "m c = Inl e" | c' where "m c = Inr ((), c')" "\<not> length (vars c) \<le> length (vars c')"
      "e = Panic ''assertion failed: vars.len() >= orig_vstkl''"
    by (auto simp: scoped_def truncate_vars_def bind_eq_Inl tm_simps split: if_splits)
  then show "F e"
  proof cases
    case 1
    then show ?thesis using tm_rel_Inl [OF assms(1) _ c(1)] by blast
  next
    case 2
    then show ?thesis using tm_rel_Inr [OF assms(1) 2(1) c(1)] assms(2) [OF c(1)] by force
  qed
next
  fix c x c'' assume c: "I c" "scoped m c = Inr (x, c'')"
  then obtain c' where c': "m c = Inr ((), c')" "length (vars c) \<le> length (vars c')"
    "c'' = c'\<lparr>vars := take (length (vars c)) (vars c')\<rparr>"
    by (auto simp: scoped_def truncate_vars_def bind_eq_Inr bind_eq_Inl tm_simps split: if_splits)
  then show "I c'' \<and> R c c''"
    using tm_rel_Inr [OF assms(1) c'(1) c(1)] assms(2) [OF c(1)] by force
qed

lemma in_with_rel:
  assumes "tm_rel I R F m"
    and "\<And>c. I c \<Longrightarrow> I (c\<lparr>with_stack := with_stack c + 1\<rparr>)"
    and "\<And>c c'. I c \<Longrightarrow> I c' \<Longrightarrow> R (c\<lparr>with_stack := with_stack c + 1\<rparr>) c' \<Longrightarrow>
      I (c'\<lparr>with_stack := with_stack c' - 1\<rparr>) \<and> R c (c'\<lparr>with_stack := with_stack c' - 1\<rparr>)"
  shows "tm_rel I R F (in_with m)"
proof (rule tm_relI)
  fix c e assume "I c" "in_with m c = Inl e"
  then show "F e"
    using tm_rel_Inl [OF assms(1) _ assms(2)]
    by (auto simp: in_with_def bind_eq_Inl bind_eq_Inr tm_simps)
next
  fix c x c'' assume "I c" "in_with m c = Inr (x, c'')"
  then show "I c'' \<and> R c c''"
    using tm_rel_Inr [OF assms(1) _ assms(2)] assms(3)
    by (auto simp: in_with_def bind_eq_Inl bind_eq_Inr tm_simps)
qed

interpretation stack_rec: recorder_rel stack_eq E "\<lambda>_. True" "\<lambda>_. True" for E
  by unfold_locales (auto simp: stack_eq_def)

interpretation stack: ctx_rel E "\<lambda>_. True" stack_eq stack_ext "\<lambda>_. True" "\<lambda>_. True" "\<lambda>_. True" for E
proof unfold_locales
  show "tm_rel (\<lambda>_. True) stack_eq (\<lambda>_. True) (snapshot_pos E n)" for n by (rule stack_rec.rec_pos)
  show "tm_rel (\<lambda>_. True) stack_eq (\<lambda>_. True) (snapshot_ident E r (push t))" for r t
    by (rule stack_rec.rec_ident) (auto simp: push_def stack_eq_def intro: tm_rel_modify)
  show "tm_rel (\<lambda>_. True) stack_eq (\<lambda>_. True) (scoped m)"
    if "tm_rel (\<lambda>_. True) stack_ext (\<lambda>_. True) m" for m :: "('a, 'b, unit) act"
    using that by (rule scoped_rel) (auto simp: stack_ext_def stack_eq_def prefix_def)
  show "tm_rel (\<lambda>_. True) stack_eq (\<lambda>_. True) (in_with m)"
    if "tm_rel (\<lambda>_. True) stack_eq (\<lambda>_. True) m" for m :: "('a, 'b, unit) act"
    using that by (rule in_with_rel) (auto simp: stack_eq_def)
qed (auto simp: stack_eq_def stack_ext_def prefix_def push_def push_var_def intro: tm_rel_modify)


section \<open>The buffers only grow\<close>

definition grows :: "('l, 'p) ctx \<Rightarrow> ('l, 'p) ctx \<Rightarrow> bool" where
  "grows c c' \<longleftrightarrow>
     prefix (acc c) (acc c') \<and> prefix (names c) (names c') \<and> prefix (mappings c) (mappings c')"

definition buffers_ok :: "('l, 'p) ext \<Rightarrow> ('l, 'p) ctx \<Rightarrow> bool" where
  "buffers_ok E c \<longleftrightarrow> distinct (names c) \<and> set (mappings c) \<subseteq> mapping_alphabet E"

lemmas grows_defs = grows_def buffers_ok_def

lemma grows_refl: "grows c c" by (simp add: grows_def)

lemma grows_trans: "grows c c' \<Longrightarrow> grows c' c'' \<Longrightarrow> grows c c''"
  unfolding grows_def by (meson prefix_order.trans)

interpretation grow_rec: recorder_rel grows E "buffers_ok E" "\<lambda>_. True" for E
  by unfold_locales (auto simp: grows_defs intro: prefix_order.trans)

interpretation grow: ctx_rel E "buffers_ok E" grows grows "\<lambda>_. True" "\<lambda>_. True" "\<lambda>_. True" for E
proof unfold_locales
  show "tm_rel (buffers_ok E) grows (\<lambda>_. True) (snapshot_pos E n)" for n by (rule grow_rec.rec_pos)
  show "tm_rel (buffers_ok E) grows (\<lambda>_. True) (snapshot_ident E r (push t))" for r t
    by (rule grow_rec.rec_ident) (auto simp: push_def grows_defs intro: tm_rel_modify)
  show "tm_rel (buffers_ok E) grows (\<lambda>_. True) (scoped m)"
    if "tm_rel (buffers_ok E) grows (\<lambda>_. True) m" for m :: "('a, 'b, unit) act"
    using that by (rule scoped_rel) (auto simp: grows_defs)
  show "tm_rel (buffers_ok E) grows (\<lambda>_. True) (in_with m)"
    if "tm_rel (buffers_ok E) grows (\<lambda>_. True) m" for m :: "('a, 'b, unit) act"
    using that by (rule in_with_rel) (auto simp: grows_defs)
qed (auto simp: grows_refl grows_defs push_def push_var_def intro: tm_rel_modify grows_trans)


section \<open>Panics\<close>

text \<open>
  All ranges of a tree lie in the input and on character boundaries, as those do that the
  parser takes from it.
\<close>

fun slices_ok :: "string \<Rightarrow> node \<Rightarrow> bool" where
  "slices_ok s (Node m p) \<longleftrightarrow>
     str_slice s (m_rng m) \<noteq> None \<and>
     (\<forall>i \<in> own_idents p. str_slice s (id_rng i) \<noteq> None) \<and>
     (\<forall>x \<in> subnodes p. slices_ok s x)"

text \<open>Some node in the tree makes the translator panic with this message.\<close>

fun may_panic :: "('l, 'p) ext \<Rightarrow> string \<Rightarrow> node \<Rightarrow> bool" where
  "may_panic E msg (Node m p) \<longleftrightarrow>
     \<not> m_trivia m \<and> (panic_message E p = Some msg \<or> (\<exists>x \<in> subnodes p. may_panic E msg x))"

definition panics_in :: "('l, 'p) ext \<Rightarrow> string \<Rightarrow> node \<Rightarrow> node \<Rightarrow> bool" where
  "panics_in E s root n \<longleftrightarrow> slices_ok s n \<and> (\<forall>msg. may_panic E msg n \<longrightarrow> may_panic E msg root)"

lemma panics_in_sub:
  assumes "panics_in E s root (Node m p)" "\<not> m_trivia m" "x \<in> subnodes p"
  shows "panics_in E s root x"
  using assms by (auto simp: panics_in_def)

lemma panics_in_msg:
  "panics_in E s root (Node m p) \<Longrightarrow> \<not> m_trivia m \<Longrightarrow> panic_message E p = Some msg \<Longrightarrow> may_panic E msg root"
  by (auto simp: panics_in_def)

lemma panics_in_slices:
  "panics_in E s root n \<Longrightarrow> str_slice s (text_range n) \<noteq> None"
  "panics_in E s root (Node m p) \<Longrightarrow> i \<in> own_idents p \<Longrightarrow> str_slice s (id_rng i) \<noteq> None"
  by (cases n) (auto simp: panics_in_def)

definition position_overflow :: "string \<Rightarrow> bool" where
  "position_overflow msg \<longleftrightarrow> msg = ''i64::try_from'' \<or> msg = ''u32::try_from''"

definition benign :: "('l, 'p) ext \<Rightarrow> node \<Rightarrow> fail \<Rightarrow> bool" where
  "benign E root e =
     (case e of Err _ \<Rightarrow> True | Panic msg \<Rightarrow> position_overflow msg \<or> may_panic E msg root)"

interpretation panic_rec: recorder_rel stack_eq E "\<lambda>c. inp c = s" "benign E root" for E s root
  by unfold_locales (auto simp: stack_eq_def benign_def position_overflow_def)

interpretation panic: ctx_rel E "\<lambda>c. inp c = s" stack_eq stack_ext "benign E root" "panics_in E s root"
    "\<lambda>r. str_slice s r \<noteq> None" for E s root
proof unfold_locales
  show "tm_rel (\<lambda>c. inp c = s) stack_eq (benign E root) (snapshot_pos E n)" for n by (rule panic_rec.rec_pos)
  show "tm_rel (\<lambda>c. inp c = s) stack_eq (benign E root) (snapshot_ident E r (push t))"
    if "str_slice s r \<noteq> None" for r t
    by (rule panic_rec.rec_ident) (auto simp: push_def stack_eq_def that intro: tm_rel_modify)
  show "tm_rel (\<lambda>c. inp c = s) stack_eq (benign E root) (scoped m)"
    if "tm_rel (\<lambda>c. inp c = s) stack_ext (benign E root) m" for m :: "('a, 'b, unit) act"
    using that by (rule scoped_rel) (auto simp: stack_ext_def stack_eq_def prefix_def)
  show "tm_rel (\<lambda>c. inp c = s) stack_eq (benign E root) (in_with m)"
    if "tm_rel (\<lambda>c. inp c = s) stack_eq (benign E root) m" for m :: "('a, 'b, unit) act"
    using that by (rule in_with_rel) (auto simp: stack_eq_def)
  show "benign E root (Panic msg)"
    if "panics_in E s root (Node m p)" "\<not> m_trivia m" "panic_message E p = Some msg" for m p msg
    using panics_in_msg [OF that] by (simp add: benign_def)
qed (auto simp: stack_eq_def stack_ext_def prefix_def push_def push_var_def benign_def
    intro!: tm_rel_modify intro: panics_in_sub dest: panics_in_slices)

end
