(* ===== verification/Names.thy ===== *)
theory Names
  imports Let_Scope
begin

text \<open>
  Names: the mangling of variables into JavaScript identifiers, the resolution of a name
  against the stack of variables, and the keys that \<open>translate_let\<close> declares.
\<close>

section \<open>Mangling\<close>

text \<open>Both replacements at once.\<close>

definition mangle_char :: "char \<Rightarrow> string" where
  "mangle_char c = (if c = CHR ''-'' then ''_$_'' else if c = CHR 0x27 then ''_$'' else [c])"

lemma mangle_var_concat: "mangle_var vn = NIX_LAMBDA_ARG_PFX @ concat (map mangle_char vn)"
proof -
  have "replace_char (CHR 0x27) ''_$'' (replace_char (CHR ''-'') ''_$_'' vn) = concat (map mangle_char vn)"
    by (induction vn) (simp_all add: replace_char_append mangle_char_def)
  then show ?thesis by (simp add: mangle_var_def)
qed

text \<open>
  The inverse, on names without a dollar sign in which no underscore follows an
  apostrophe: the code of an apostrophe and an underscore is that of a minus.
\<close>

fun unmangle :: "string \<Rightarrow> string" where
  "unmangle [] = []"
| "unmangle (c # cs) =
     (if c = CHR ''_'' \<and> take 1 cs = ''$'' then
        (if take 2 cs = ''$_'' \<and> take 1 (drop 2 cs) \<noteq> ''$''
         then CHR ''-'' # unmangle (drop 2 cs) else CHR 0x27 # unmangle (drop 1 cs))
      else c # unmangle cs)"

fun unambiguous :: "string \<Rightarrow> bool" where
  "unambiguous [] = True"
| "unambiguous (c # cs) \<longleftrightarrow>
     c \<noteq> CHR ''$'' \<and> \<not> (c = CHR 0x27 \<and> take 1 cs = ''_'') \<and> unambiguous cs"

lemma mangled_no_dollar: "unambiguous vn \<Longrightarrow> take 1 (concat (map mangle_char vn)) \<noteq> ''$''"
  by (cases vn) (auto simp: mangle_char_def)

lemma unmangle_minus:
  "take 1 x \<noteq> ''$'' \<Longrightarrow> unmangle (CHR ''_'' # CHR ''$'' # CHR ''_'' # x) = CHR ''-'' # unmangle x"
  by simp

lemma unmangle_apostrophe:
  "take 1 x \<noteq> ''_'' \<or> take 1 (drop 1 x) = ''$'' \<Longrightarrow>
   unmangle (CHR ''_'' # CHR ''$'' # x) = CHR 0x27 # unmangle x"
  by (cases x) auto

lemma unmangle_other: "take 1 x \<noteq> ''$'' \<Longrightarrow> unmangle (c # x) = c # unmangle x"
  by simp

lemma unmangle_inverse: "unambiguous vn \<Longrightarrow> unmangle (concat (map mangle_char vn)) = vn"
proof (induction vn)
  case (Cons c cs)
  let ?x = "concat (map mangle_char cs)"
  have IH: "unmangle ?x = cs" and nd: "take 1 ?x \<noteq> ''$''"
    using Cons mangled_no_dollar by simp_all
  have apo: "take 1 ?x \<noteq> ''_'' \<or> take 1 (drop 1 ?x) = ''$''" if "c = CHR 0x27"
    using Cons.prems that by (cases cs) (simp_all add: mangle_char_def)
  consider "c = CHR ''-''" | "c = CHR 0x27" | "c \<noteq> CHR ''-''" "c \<noteq> CHR 0x27" by blast
  then show ?case
  proof cases
    case 1
    then have "mangle_char c = ''_$_''" by (simp add: mangle_char_def)
    then show ?thesis
      by (simp only: list.map concat.simps append_Cons append_Nil unmangle_minus [OF nd] IH 1)
  next
    case 2
    then have "mangle_char c = ''_$''" by (simp add: mangle_char_def)
    then show ?thesis
      by (simp only: list.map concat.simps append_Cons append_Nil unmangle_apostrophe [OF apo [OF 2]] IH 2)
  next
    case 3
    then have "mangle_char c = [c]" by (simp add: mangle_char_def)
    then show ?thesis
      by (simp only: list.map concat.simps append_Cons append_Nil unmangle_other [OF nd] IH)
  qed
qed simp

text \<open>The name that the inverse finds for a mangled one.\<close>

fun collapse :: "string \<Rightarrow> string" where
  "collapse (c # d # cs) =
     (if c = CHR 0x27 \<and> d = CHR ''_'' then CHR ''-'' # collapse cs else c # collapse (d # cs))"
| "collapse cs = cs"

lemma mangle_collapse: "concat (map mangle_char (collapse vn)) = concat (map mangle_char vn)"
  by (induction vn rule: collapse.induct) (auto simp: mangle_char_def)

lemma collapse_head: "take 1 (collapse cs) = ''_'' \<Longrightarrow> take 1 cs = ''_''"
  by (cases cs rule: collapse.cases) (auto split: if_splits)

lemma collapse_unambiguous: "CHR ''$'' \<notin> set vn \<Longrightarrow> unambiguous (collapse vn)"
  by (induction vn rule: collapse.induct) (auto dest: collapse_head [simplified])

section \<open>Resolution\<close>

lemma lookup_var_append:
  "lookup_var (vs @ ws) vn = (case lookup_var ws vn of Some c \<Rightarrow> Some c | None \<Rightarrow> lookup_var vs vn)"
proof -
  have "find P (xs @ ys) = (case find P xs of Some x \<Rightarrow> Some x | None \<Rightarrow> find P ys)"
    for P and xs ys :: "(string \<times> ident_categ) list"
    by (induction xs) auto
  then show ?thesis by (auto simp: lookup_var_def split: option.split)
qed

lemma lookup_var_None: "lookup_var vs vn = None \<longleftrightarrow> vn \<notin> fst ` set vs"
  by (force simp: lookup_var_def find_None_iff)

lemma lookup_var_single [simp]: "lookup_var [(n, c)] vn = (if vn = n then Some c else None)"
  by (simp add: lookup_var_def)

lemma lookup_var_Some:
  "lookup_var vs vn = Some c \<longleftrightarrow> (\<exists>us ws. vs = us @ (vn, c) # ws \<and> vn \<notin> fst ` set ws)"
proof (induction vs rule: rev_induct)
  case Nil
  then show ?case by (simp add: lookup_var_def)
next
  case (snoc p vs)
  obtain n d where p: "p = (n, d)" by fastforce
  show ?case
  proof (cases "n = vn")
    case True
    show ?thesis
    proof
      assume "lookup_var (vs @ [p]) vn = Some c"
      with True p have "vs @ [p] = vs @ (vn, c) # []" by (simp add: lookup_var_append)
      then show "\<exists>us ws. vs @ [p] = us @ (vn, c) # ws \<and> vn \<notin> fst ` set ws" by fastforce
    next
      assume "\<exists>us ws. vs @ [p] = us @ (vn, c) # ws \<and> vn \<notin> fst ` set ws"
      then obtain us ws where u: "vs @ [p] = us @ (vn, c) # ws" "vn \<notin> fst ` set ws" by blast
      then have "ws = []" using True p by (cases ws rule: rev_cases) auto
      with u True p show "lookup_var (vs @ [p]) vn = Some c" by (simp add: lookup_var_append)
    qed
  next
    case False
    have "(\<exists>us ws. vs @ [p] = us @ (vn, c) # ws \<and> vn \<notin> fst ` set ws) \<longleftrightarrow>
        (\<exists>us ws. vs = us @ (vn, c) # ws \<and> vn \<notin> fst ` set ws)"
    proof
      assume "\<exists>us ws. vs @ [p] = us @ (vn, c) # ws \<and> vn \<notin> fst ` set ws"
      then obtain us ws where u: "vs @ [p] = us @ (vn, c) # ws" "vn \<notin> fst ` set ws" by blast
      with False p show "\<exists>us ws. vs = us @ (vn, c) # ws \<and> vn \<notin> fst ` set ws"
        by (cases ws rule: rev_cases) auto
    next
      assume "\<exists>us ws. vs = us @ (vn, c) # ws \<and> vn \<notin> fst ` set ws"
      then obtain us ws where "vs = us @ (vn, c) # ws" "vn \<notin> fst ` set ws" by blast
      with False p show "\<exists>us ws. vs @ [p] = us @ (vn, c) # ws \<and> vn \<notin> fst ` set ws"
        by (intro exI [of _ us] exI [of _ "ws @ [p]"]) simp
    qed
    with snoc False p show ?thesis by (simp add: lookup_var_append)
  qed
qed

section \<open>Declared keys\<close>

text \<open>The names that the bindings define, in no order.\<close>

definition bound_names :: "node entry_holder \<Rightarrow> string set" where
  "bound_names eh =
     {as_str i |i k. k \<in> set (entries eh) \<and> Option.bind (first_key k) cast_ident = Some i} \<union>
     {as_str i |i inh. inh \<in> set (inherits eh) \<and> i \<in> set (inh_idents inh)}"

lemma set_map_filter: "set (List.map_filter f xs) = {y. \<exists>x \<in> set xs. f x = Some y}"
  by (force simp: List.map_filter_def)

lemma raw_keys_names: "snd ` set (raw_keys eh) = bound_names eh"
proof -
  have "snd ` set (raw_keys eh) =
      {as_str i |i n. cast_ident n = Some i \<and>
        ((\<exists>k \<in> set (entries eh). first_key k = Some n) \<or>
         n \<in> ident_node ` (\<Union>inh \<in> set (inherits eh). set (inh_idents inh)))}"
    by (force simp: raw_keys_def set_map_filter)
  also have "\<dots> = bound_names eh"
    unfolding bound_names_def by (force simp: Option.bind_eq_Some_conv)
  finally show ?thesis .
qed

lemma getkeys_names: "snd ` set (getkeys eh) = bound_names eh"
proof -
  have "set (map snd (getkeys eh)) = set (map snd (sort_key snd (raw_keys eh)))"
    by (simp only: getkeys_def map_dedup_by_key remdups_adj_set)
  then show ?thesis by (simp add: raw_keys_names)
qed

lemma getkeys_sorted_list: "map snd (getkeys eh) = sorted_list_of_set (bound_names eh)"
proof -
  let ?ks = "sort_key snd (raw_keys eh)"
  have m: "map snd (getkeys eh) = remdups_adj (map snd ?ks)"
    by (simp add: getkeys_def map_dedup_by_key)
  have "sorted (map snd ?ks)" by (rule sorted_sort_key)
  then have "sorted (remdups_adj (map snd ?ks))" "distinct (remdups_adj (map snd ?ks))"
    by (simp_all add: sorted_remdups_adj sorted_remdups_adj_distinct)
  moreover have "set (remdups_adj (map snd ?ks)) = bound_names eh"
    using getkeys_names [of eh] by (simp add: m [symmetric] del: set_map) simp
  ultimately show ?thesis unfolding m by (metis sorted_list_of_set.idem_if_sorted_distinct)
qed

section \<open>Properties\<close>

text \<open>C17: Variables are renamed apart: two different names without a dollar sign in which no
  apostrophe is followed by an underscore get different JavaScript identifiers.\<close>

theorem mangle_var_inj:
  assumes "unambiguous a" "unambiguous b" "a \<noteq> b"
  shows "mangle_var a \<noteq> mangle_var b"
proof
  assume "mangle_var a = mangle_var b"
  then have "concat (map mangle_char a) = concat (map mangle_char b)" by (simp add: mangle_var_concat)
  then show False using unmangle_inverse [OF assms(1)] unmangle_inverse [OF assms(2)] assms(3) by metis
qed

theorem mangle_var_inj_witness: "mangle_var ''a-b'' \<noteq> mangle_var ''a_b''"
  by (rule mangle_var_inj) simp_all

text \<open>C22: When two variables are confused: names without a dollar sign get the same JavaScript
  identifier exactly if they agree once every apostrophe that is followed by an underscore is read,
  together with the underscore, as a minus. So \<open>a-b\<close> and \<open>a'_b\<close> become one variable.\<close>

theorem mangle_var_eq_iff:
  assumes "CHR ''$'' \<notin> set a" "CHR ''$'' \<notin> set b"
  shows "mangle_var a = mangle_var b \<longleftrightarrow> collapse a = collapse b"
proof -
  have "mangle_var a = mangle_var b \<longleftrightarrow>
      concat (map mangle_char (collapse a)) = concat (map mangle_char (collapse b))"
    by (simp add: mangle_var_concat mangle_collapse)
  also have "\<dots> \<longleftrightarrow> collapse a = collapse b"
    using unmangle_inverse collapse_unambiguous assms by metis
  finally show ?thesis .
qed

theorem mangle_var_eq_iff_witness: "mangle_var ''a-b'' = mangle_var (''a'' @ [CHR 0x27] @ ''_b'')"
  by (rule mangle_var_eq_iff [THEN iffD2]) simp_all

text \<open>C14: A name resolves to the category of the binding that was pushed last; without a binding it
  resolves to the \<open>with\<close> scope if there is one, and is reported with its line otherwise.\<close>

theorem resolve_ident_spec:
  "resolve_ident c i = r \<longleftrightarrow>
     (\<exists>us categ ws. vars c = us @ (as_str i, categ) # ws \<and> as_str i \<notin> fst ` set ws \<and> r = Inr categ) \<or>
     (as_str i \<notin> fst ` set (vars c) \<and>
      r = (if with_stack c = 0
           then Inl (''line '' @ show_nat (txtrng_to_lineno (inp c) (id_rng i)) @
                     '': unknown identifier '' @ as_str i)
           else Inr WithScopeVar))"
proof (cases "lookup_var (vars c) (as_str i)")
  case None
  then have "as_str i \<notin> fst ` set (vars c)" by (simp add: lookup_var_None)
  moreover from this have "\<nexists>us categ ws. vars c = us @ (as_str i, categ) # ws" by force
  ultimately show ?thesis using None by (auto simp: resolve_ident_def)
next
  case (Some categ)
  then have "resolve_ident c i = Inr categ" by (simp add: resolve_ident_def)
  moreover have "as_str i \<in> fst ` set (vars c)"
    using Some lookup_var_None [of "vars c" "as_str i"] by simp
  moreover have "(\<exists>us d ws. vars c = us @ (as_str i, d) # ws \<and> as_str i \<notin> fst ` set ws \<and> r = Inr d) \<longleftrightarrow>
      r = Inr categ"
    using Some lookup_var_Some [of "vars c" "as_str i"] by (metis option.inject)
  ultimately show ?thesis by auto
qed

text \<open>C15: The keys a \<open>let\<close> or attribute set declares are the names bound by its entries and
  inherits, each once, in ascending order.\<close>

theorem getkeys_spec: "map snd (getkeys eh) = sorted_list_of_set (bound_names eh)"
  by (rule getkeys_sorted_list)

text \<open>C16: Entering a name into the table of the source map returns the index where the table has that
  name; the entries that were there keep their index, and the table grows only by a name it did not have.\<close>

theorem intern_name_spec:
  "\<exists>k c'. intern_name ident c = Inr (k, c') \<and> k < length (names c') \<and> names c' ! k = ident \<and>
     c' = c\<lparr>names := (if ident \<in> set (names c) then names c else names c @ [ident])\<rparr>"
proof (cases "find_index ident (names c)")
  case None
  then have "ident \<notin> set (names c)" by (simp add: find_index_None)
  with None show ?thesis by (simp add: intern_name_def bind_apply tm_simps)
next
  case (Some k)
  then have "k < length (names c)" "names c ! k = ident" by (auto dest: find_index_nth)
  moreover from this have "ident \<in> set (names c)" by auto
  ultimately show ?thesis using Some by (simp add: intern_name_def bind_apply tm_simps)
qed

end
