(* ===== verification/Await_Positions.thy ===== *)
theory Await_Positions
  imports Frame_Instances Names
begin

text \<open>
  Where the translator wants the value of an expression and not a promise of it, it passes down
  the state \<open>Want\<close>: for the function of an application, the condition of an \<open>if\<close>, the set of a
  selection, the namespace of a \<open>with\<close>, the parts of a string. This theory says for which
  expressions the \<open>await\<close> is then written.
\<close>

section \<open>What happens to a wanted await\<close>

text \<open>
  \<open>Awaited\<close>: the code starts with the \<open>await\<close>. \<open>Direct\<close>: the code computes a value that is not a
  promise (a literal, a function, a list, an object), or is a builtin. \<open>Pending\<close>: the code is an
  asynchronous call or a \<open>PLazy\<close> without \<open>await\<close>.
\<close>

datatype promise_shape = Awaited | Direct | Pending

definition global_var :: "(string \<times> ident_categ) list \<Rightarrow> string \<Rightarrow> bool" where
  "global_var vs x = (case lookup_var vs x of Some categ \<Rightarrow> is_global_categ categ | None \<Rightarrow> False)"

definition no_bindings :: "node entry_holder \<Rightarrow> bool" where
  "no_bindings eh \<longleftrightarrow> entries eh = [] \<and> inherits eh = []"

definition let_shape :: "node entry_holder \<Rightarrow> promise_shape" where
  "let_shape eh = (if letvar_entries eh \<and> simple_inherits eh then Pending else Awaited)"

definition opt_shape :: "(node \<Rightarrow> promise_shape) \<Rightarrow> node option \<Rightarrow> promise_shape" where
  "opt_shape f x = (case x of None \<Rightarrow> Direct | Some n \<Rightarrow> f n)"

lemma opt_shape_cong [fundef_cong]:
  "x = x' \<Longrightarrow> (\<And>n. n \<in> set_option x' \<Longrightarrow> f n = g n) \<Longrightarrow> opt_shape f x = opt_shape g x'"
  by (auto simp: opt_shape_def split: option.split)

fun await_shape :: "(string \<times> ident_categ) list \<Rightarrow> node \<Rightarrow> promise_shape" where
  "await_shape vs (Node m p) =
     (if m_trivia m then Direct
      else case p of
        PtApply _ _ \<Rightarrow> Awaited
      | PtAssert _ _ \<Rightarrow> Awaited
      | PtIfElse _ _ _ \<Rightarrow> Awaited
      | PtOrDefault _ _ \<Rightarrow> Awaited
      | PtBinOp (Some (BinOther _)) _ _ \<Rightarrow> Awaited
      | PtIdent x \<Rightarrow> (if global_var vs x then Direct else Awaited)
      | PtSelect (Some x) _ \<Rightarrow>
          (case cast_ident x of
             Some i \<Rightarrow> (if global_var vs (as_str i) then Direct else Awaited)
           | None \<Rightarrow> Awaited)
      | PtAttrSet r eh \<Rightarrow>
          (if no_bindings eh \<or> (\<not> r \<and> object_entries eh \<and> simple_inherits eh) then Direct else Awaited)
      | PtLetIn eh b \<Rightarrow> (if no_bindings eh then opt_shape (await_shape vs) b else let_shape eh)
      | PtLegacyLet eh \<Rightarrow> let_shape eh
      | PtUnaryOp _ _ \<Rightarrow> Pending
      | PtWith _ _ \<Rightarrow> Pending
      | PtParen x \<Rightarrow> opt_shape (await_shape vs) x
      | PtRoot x \<Rightarrow> opt_shape (await_shape vs) x
      | PtDynamic x \<Rightarrow> opt_shape (await_shape vs) x
      | PtInheritFrom x \<Rightarrow> opt_shape (await_shape vs) x
      | PtStrInterpol x \<Rightarrow> opt_shape (await_shape vs) x
      | _ \<Rightarrow> Direct)"

fun shape_text :: "promise_shape \<Rightarrow> string \<Rightarrow> bool" where
  "shape_text Awaited t \<longleftrightarrow> prefix ''(await '' t"
| "shape_text Pending t \<longleftrightarrow> \<not> prefix ''(await '' t"
| "shape_text Direct t \<longleftrightarrow> True"

section \<open>The text an action starts with\<close>

abbreviation longer :: "('l, 'p) ctx \<Rightarrow> ('l, 'p) ctx \<Rightarrow> bool" where
  "longer c c' \<equiv> prefix (acc c) (acc c')"

abbreviation appends :: "('l, 'p, 'a) act \<Rightarrow> bool" where
  "appends \<equiv> tm_rel (\<lambda>_. True) longer (\<lambda>_. True)"

interpretation emit_rec: recorder_rel longer E "\<lambda>_. True" "\<lambda>_. True" for E
  by unfold_locales (auto intro: prefix_order.trans)

interpretation emit: ctx_rel E "\<lambda>_. True" longer longer "\<lambda>_. True" "\<lambda>_. True" "\<lambda>_. True" for E
proof unfold_locales
  show "appends (snapshot_pos E n)" for n by (rule emit_rec.rec_pos)
  show "appends (snapshot_ident E r (push t))" for r t
    by (rule emit_rec.rec_ident) (auto simp: push_def intro: tm_rel_modify)
  show "appends (scoped m)" if "appends m" for m :: "('a, 'b, unit) act"
    using that by (rule scoped_rel) auto
  show "appends (in_with m)" if "appends m" for m :: "('a, 'b, unit) act"
    using that by (rule in_with_rel) auto
qed (auto simp: push_def push_var_def intro: tm_rel_modify prefix_order.trans)

definition opens :: "string \<Rightarrow> ('l, 'p, 'a) act \<Rightarrow> bool" where
  "opens p m \<longleftrightarrow> (\<forall>c x c'. m c = Inr (x, c') \<longrightarrow> prefix (acc c @ p) (acc c'))"

lemma opensD: "opens p m \<Longrightarrow> m c = Inr (x, c') \<Longrightarrow> \<exists>t. acc c' = acc c @ p @ t"
  by (fastforce simp: opens_def prefix_def)

lemma opens_push: "appends (f ()) \<Longrightarrow> prefix p q \<Longrightarrow> opens p (bind (push q) f)"
  unfolding opens_def
  by (auto simp: bind_eq_Inr tm_simps dest!: tm_rel_Inr) (metis append.assoc prefix_def)

lemma opens_lazyness:
  assumes "\<And>s. appends (m s)" "prefix p (lazy_open sctx at lt adj)"
  shows "opens p (lazyness_incoming sctx at lt adj m)"
  unfolding lazyness_incoming_eq
  by (rule opens_push) (auto intro!: emit_rec.rel_bind emit_rec.rel_ret emit.step_push assms)

lemma await_open:
  "at \<in> {Need, Flush} \<Longrightarrow> prefix ''(await '' (lazy_open (mksctx Want l) at lt adj)"
  by (auto simp: lazy_open_def merge_sttr_def)

lemma emit_node: "appends (translate_node E s n)"
  by (rule emit.rel_translate_node) simp

lemma emit_rtv: "appends (rtv (translate_node E) s r x d)"
  by (rule emit.rel_rtv) (rule emit_node)

lemmas emit_intros =
  emit_rec.rel_bind emit_rec.rel_ret emit_rec.rel_gets emit_rec.rel_void emit_rec.rel_seqs emit_rec.rel_seqs_sep
  emit.step_push emit_node emit_rtv emit.rel_line_err

section \<open>The arms\<close>

abbreviation wanted :: stack_ctx where
  "wanted \<equiv> mksctx Want Nothing"

lemma opens_apply: "opens ''(await '' (node_apply (translate_node E) wanted r l v)"
  unfolding node_apply_def by (rule opens_lazyness) (auto intro!: emit_intros simp: await_open)

lemma opens_assert: "opens ''(await '' (node_assert E (translate_node E) wanted r x b)"
  unfolding node_assert_def
  by (rule opens_lazyness) (auto intro!: emit_intros simp: await_open split: option.split)

lemma opens_ifelse: "opens ''(await '' (node_ifelse (translate_node E) wanted r x a b)"
  unfolding node_ifelse_def by (rule opens_lazyness) (auto intro!: emit_intros simp: await_open)

lemma opens_or_default: "opens ''(await '' (node_or_default (translate_node E) wanted r x d)"
  unfolding node_or_default_def by (rule opens_lazyness) (auto intro!: emit_intros simp: await_open)

lemma opens_binop: "opens ''(await '' (node_binop E (translate_node E) wanted r (Some (BinOther op)) x y)"
  unfolding node_binop_def option.case binop_kind.case
  by (rule opens_lazyness) (auto intro!: emit_intros simp: await_open)

lemma opens_unaryop: "opens ''nixOp.u_'' (node_unaryop (translate_node E) r op x)"
  unfolding node_unaryop_def seqs.simps
  by (rule opens_push) (auto intro!: emit_intros simp: const_defs)

lemma opens_with: "opens ''(async '' (node_with (translate_node E) r ns b)"
  unfolding node_with_def seqs.simps
  by (rule opens_push) (auto intro!: emit_intros emit.step_with)

lemma opens_ident:
  assumes "\<not> is_global_categ categ"
  shows "opens ''(await '' (translate_node_ident_raw E (Some wanted) r vn categ)"
proof -
  have inner: "appends (bind (gets (\<lambda>c. length (acc c))) (\<lambda>startpos.
      bind (snapshot_ident E r (push t)) (\<lambda>_. bind (acc_from startpos) (\<lambda>t. ret (Some t)))))" for t
    unfolding acc_from_def by (intro emit_intros emit.step_name TrueI)
  have "opens ''(await '' (handle_lazyness (Some wanted) (snapshot_ident E r (push t)))" for t
    unfolding handle_lazyness_def option.case by (rule opens_lazyness [OF inner]) (simp add: await_open)
  then show ?thesis
    using assms
    by (fastforce simp: opens_def translate_node_ident_raw_def bind_eq_Inr tm_simps acc_from_def Let_def
      split: option.splits)
qed

lemma opens_select:
  assumes "\<not> is_wellknown c x" "node_select E (translate_node E) wanted r (Some x) i c = Inr (u, c')"
  shows "prefix (acc c @ ''(await '') (acc c')"
proof (cases i)
  case (Some k)
  have key: "appends (translate_node_key_element_indexing E (translate_node E) k)"
    by (rule emit.rel_key_indexing) (simp_all add: emit_node)
  have "opens ''(await '' (lazyness_incoming wanted Need Need Front
      (\<lambda>_. seqs [translate_node E wanted x, translate_node_key_element_indexing E (translate_node E) k]))"
    by (rule opens_lazyness) (auto intro!: emit_intros key simp: await_open)
  moreover have "lazyness_incoming wanted Need Need Front
      (\<lambda>_. seqs [translate_node E wanted x, translate_node_key_element_indexing E (translate_node E) k]) c = Inr (u, c')"
    using assms Some by (simp add: node_select_def bind_apply tm_simps Let_def)
  ultimately show ?thesis by (simp add: opens_def)
qed (use assms in \<open>simp add: node_select_def tm_simps\<close>)

lemma emit_lets:
  "appends (let_vars E (translate_node E) vs eh b sc)" "appends (let_scope E (translate_node E) vs eh b sc)"
proof -
  have e: "appends (let_entries E (translate_node E) vs eh sc')" for sc'
    by (rule emit.rel_let_entries) (simp_all add: emit_node)
  have r: "appends (let_return (translate_node E) b sc')" for sc'
    by (rule emit.rel_let_return) (rule emit_node)
  have d: "appends (let_declare E p)" for p
    unfolding let_declare_def by (cases p) (auto intro!: emit_intros emit.step_var emit.rel_ident_raw)
  show "appends (let_vars E (translate_node E) vs eh b sc)"
    unfolding let_vars_def by (auto intro!: emit.step_scope emit_intros e r d)
  show "appends (let_scope E (translate_node E) vs eh b sc)"
    unfolding let_scope_def by (auto intro!: emit.step_scope emit_intros emit.step_var e r)
qed

lemma opens_let_vars:
  assumes "\<not> no_bindings eh" "letvar_entries eh" "simple_inherits eh"
  shows "opens ''nixBlti.'' (translate_let E (translate_node E) wanted True eh (LetNix b) NIX_IN_SCOPE)"
  using assms unfolding translate_let_def no_bindings_def Let_def
  by (auto intro!: opens_lazyness emit_lets simp: lazy_open_def lazy_wraps_def merge_sttr_def)

lemma opens_let_scope:
  assumes "\<not> no_bindings eh" "sc = NIX_IN_SCOPE \<Longrightarrow> body \<noteq> ExtractScope \<Longrightarrow> \<not> (letvar_entries eh \<and> simple_inherits eh)"
    and "sc \<noteq> NIX_IN_SCOPE \<Longrightarrow> body = ExtractScope \<Longrightarrow> \<not> (object_entries eh \<and> simple_inherits eh)"
  shows "opens ''(await '' (translate_let E (translate_node E) wanted True eh body sc)"
  using assms unfolding translate_let_def no_bindings_def Let_def
  by (auto intro!: opens_lazyness emit_lets simp: await_open)

section \<open>Every node\<close>

definition writes :: "promise_shape \<Rightarrow> ('l, 'p) ctx \<Rightarrow> ('l, 'p, 'a) act \<Rightarrow> bool" where
  "writes sh c m \<longleftrightarrow> (\<forall>x c'. m c = Inr (x, c') \<longrightarrow> (\<exists>t. acc c' = acc c @ t \<and> shape_text sh t))"

lemma writes_Direct: "appends m \<Longrightarrow> writes Direct c m"
  by (auto simp: writes_def prefix_def dest: tm_rel_Inr)

lemma writes_Awaited: "opens ''(await '' m \<Longrightarrow> writes Awaited c m"
  by (fastforce simp: writes_def dest: opensD)

lemma writes_Pending: "opens (x # y # z # p) m \<Longrightarrow> [x, y, z] \<noteq> ''(aw'' \<Longrightarrow> writes Pending c m"
  by (fastforce simp: writes_def dest: opensD)

lemma writes_rtv:
  assumes "\<And>n. x = Some n \<Longrightarrow> writes (f n) c (translate_node E s n)"
  shows "writes (opt_shape f x) c (rtv (translate_node E) s r x d)"
  using assms by (cases x) (auto simp: rtv_def opt_shape_def writes_def bind_apply tm_simps)

lemma resolve_global:
  "resolve_ident c i = Inr categ \<Longrightarrow> is_global_categ categ \<longleftrightarrow> global_var (vars c) (as_str i)"
  by (auto simp: resolve_ident_def global_var_def is_global_categ_def split: option.splits if_splits)

lemma wellknown_global:
  "is_wellknown c x \<longleftrightarrow> (case cast_ident x of Some i \<Rightarrow> global_var (vars c) (as_str i) | None \<Rightarrow> False)"
  by (auto simp: is_wellknown_def resolve_ident_def global_var_def is_global_categ_def split: option.splits)

lemma writes_select:
  "\<not> is_wellknown c x \<Longrightarrow> writes Awaited c (node_select E (translate_node E) wanted r (Some x) i)"
  unfolding writes_def by (auto dest!: opens_select simp: prefix_def simp del: append.assoc)

lemma writes_ident:
  "writes (if global_var (vars c) (as_str i) then Direct else Awaited) c (translate_node_ident E (Some wanted) i)"
proof (cases "resolve_ident c i")
  case (Inl e)
  then show ?thesis by (simp add: writes_def translate_node_ident_def bind_apply tm_simps)
next
  case (Inr categ)
  have "appends (translate_node_ident_raw E (Some wanted) (id_rng i) (as_str i) categ)"
    by (rule emit.rel_ident_raw) simp
  then have "writes (if global_var (vars c) (as_str i) then Direct else Awaited) c
      (translate_node_ident_raw E (Some wanted) (id_rng i) (as_str i) categ)"
    using resolve_global [OF Inr] by (auto intro: writes_Direct writes_Awaited opens_ident)
  with Inr show ?thesis by (simp add: writes_def translate_node_ident_def bind_apply tm_simps)
qed

lemma writes_let:
  assumes "\<not> no_bindings eh"
  shows "writes (let_shape eh) c (translate_let E (translate_node E) wanted True eh (LetNix b) NIX_IN_SCOPE)"
proof (cases "letvar_entries eh \<and> simple_inherits eh")
  case True
  then show ?thesis
    using opens_let_vars [OF assms, of E b] by (auto simp: let_shape_def intro: writes_Pending)
next
  case False
  then have "opens ''(await '' (translate_let E (translate_node E) wanted True eh (LetNix b) NIX_IN_SCOPE)"
    using assms by (intro opens_let_scope) auto
  with False show ?thesis by (auto simp: let_shape_def intro: writes_Awaited)
qed

lemma writes_attrset:
  "writes (if no_bindings eh \<or> (\<not> r \<and> object_entries eh \<and> simple_inherits eh) then Direct else Awaited) c
     (translate_let E (translate_node E) wanted True eh ExtractScope (attrset_scope r))"
proof (cases "no_bindings eh \<or> (\<not> r \<and> object_entries eh \<and> simple_inherits eh)")
  case True
  have "appends (translate_let E (translate_node E) wanted True eh ExtractScope (attrset_scope r))"
    by (rule emit.rel_translate_let) (simp_all add: emit_node)
  with True show ?thesis by (simp add: writes_Direct)
next
  case False
  have "opens ''(await '' (translate_let E (translate_node E) wanted True eh ExtractScope (attrset_scope r))"
    by (rule opens_let_scope) (use False in \<open>auto simp: attrset_scope_def\<close>)
  with False show ?thesis by (subst if_not_P) (simp_all add: writes_Awaited)
qed

interpretation still: recorder_rel "\<lambda>c c'. acc c' = acc c \<and> vars c' = vars c" E "\<lambda>_. True" "\<lambda>_. True" for E
  by unfold_locales auto

lemma writes_pos: "(\<And>d. acc d = acc c \<Longrightarrow> vars d = vars c \<Longrightarrow> writes sh d m) \<Longrightarrow>
  writes sh c (bind (snapshot_pos E n) (\<lambda>_. m))"
  unfolding writes_def
  by (auto simp: bind_eq_Inr dest!: tm_rel_Inr [OF still.rec_pos])

lemma writes_node: "writes (await_shape (vars c) n) c (translate_node E wanted n)"
proof (induction n arbitrary: c rule: node_subnodes_induct)
  case (Node m p)
  have "writes (await_shape (vars c) (Node m p)) c (translate_parsed E (translate_node E) wanted m p)"
    if "\<not> m_trivia m" for c
  proof -
    have any: "appends (translate_parsed E (translate_node E) wanted m p)"
      by (rule emit.rel_translate_parsed) (simp_all add: emit_node that)
    show ?thesis
    proof (cases p)
      case (PtBinOp op l r)
      then show ?thesis
        using that any [unfolded PtBinOp]
        by (auto simp: translate_parsed_def intro: writes_Direct writes_Awaited [OF opens_binop]
            split: option.split binop_kind.split)
    next
      case (PtIdent x)
      then show ?thesis using that writes_ident [of c "Ident m x" E]
        by (auto simp: translate_parsed_def writes_def void_def bind_eq_Inr tm_simps)
    next
      case (PtSelect x i)
      show ?thesis
      proof (cases x)
        case (Some y)
        show ?thesis
        proof (cases "is_wellknown c y")
          case True
          with that any show ?thesis
            by (auto simp: PtSelect Some wellknown_global intro: writes_Direct split: option.splits)
        next
          case False
          then have "await_shape (vars c) (Node m p) = Awaited"
            using that by (auto simp: PtSelect Some wellknown_global split: option.splits)
          with writes_select [OF False] show ?thesis by (simp add: PtSelect Some translate_parsed_def)
        qed
      qed (use that any PtSelect in \<open>simp add: writes_Direct\<close>)
    next
      case (PtAttrSet r eh)
      with that writes_attrset [of eh r c E] show ?thesis by (simp add: translate_parsed_def)
    next
      case (PtLetIn eh b)
      show ?thesis
      proof (cases b)
        case None
        with that any PtLetIn show ?thesis
          by (simp add: translate_parsed_def node_let_in_def line_err_def writes_def bind_apply tm_simps)
      next
        case (Some n)
        with Node [of n c] that writes_let [of eh c E n] show ?thesis
          by (auto simp: PtLetIn subnodes_def translate_parsed_def node_let_in_def opt_shape_def
            no_bindings_def translate_let_def)
      qed
    next
      case (PtLegacyLet eh)
      show ?thesis
      proof (cases "legacy_body eh")
        case None
        with that PtLegacyLet show ?thesis
          by (simp add: translate_parsed_def node_legacy_let_def line_err_def writes_def bind_apply tm_simps)
      next
        case (Some n)
        then have "\<not> no_bindings eh" by (auto simp: legacy_body_def no_bindings_def)
        with that writes_let [OF this, of c E n] Some show ?thesis
          by (simp add: PtLegacyLet translate_parsed_def node_legacy_let_def)
      qed
    next
      case (PtUnaryOp op x)
      with that writes_Pending [OF opens_unaryop] show ?thesis by (simp add: translate_parsed_def)
    next
      case (PtWith ns b)
      with that writes_Pending [OF opens_with] show ?thesis by (simp add: translate_parsed_def)
    qed (use that any Node in \<open>simp_all add: translate_parsed_def subnodes_def writes_Direct writes_Awaited writes_rtv
        opens_apply opens_assert opens_ifelse opens_or_default\<close>)
  qed
  note step = this
  show ?case
  proof (cases "m_trivia m")
    case True
    then show ?thesis by (simp add: writes_def tm_simps)
  next
    case False
    have "writes (await_shape (vars c) (Node m p)) d (translate_parsed E (translate_node E) wanted m p)"
      if "vars d = vars c" for d
      using step [OF False, of d] by (simp only: that)
    from writes_pos [OF this] False show ?thesis by (simp del: await_shape.simps)
  qed
qed

end
