(* ===== verification/Scoping.thy ===== *)
theory Scoping
  imports Frame_Instances Names
begin

text \<open>
  Which expressions the translator accepts. \<open>accepts\<close> is a static check in the style of the
  language's scoping rules, without state, output or order of evaluation; the theorem is that
  the translator returns a result on exactly the trees that pass it, and an error on the others.
\<close>

section \<open>The static check\<close>

text \<open>A part that has to be there, a key, an entry, an inherit, a pattern.\<close>

definition req :: "(node \<Rightarrow> bool) \<Rightarrow> node option \<Rightarrow> bool" where
  "req P x = (case x of None \<Rightarrow> False | Some n \<Rightarrow> P n)"

definition key_ok :: "(node \<Rightarrow> bool) \<Rightarrow> node \<Rightarrow> bool" where
  "key_ok P n \<longleftrightarrow> cast_ident n \<noteq> None \<or> P n"

definition kv_ok :: "(node \<Rightarrow> bool) \<Rightarrow> node key_value \<Rightarrow> bool" where
  "kv_ok P k \<longleftrightarrow>
     (case kv_key k of None \<Rightarrow> False | Some ks \<Rightarrow> ks \<noteq> [] \<and> list_all (key_ok P) ks) \<and> req P (kv_value k)"

definition inh_ok :: "(string \<Rightarrow> bool) \<Rightarrow> (node \<Rightarrow> bool) \<Rightarrow> node inherit \<Rightarrow> bool" where
  "inh_ok R P i \<longleftrightarrow>
     (case inh_from i of
        None \<Rightarrow> list_all (\<lambda>j. R (as_str j)) (inh_idents i)
      | Some f \<Rightarrow> req P (inhf_inner f))"

definition holder_ok :: "(string \<Rightarrow> bool) \<Rightarrow> (node \<Rightarrow> bool) \<Rightarrow> node entry_holder \<Rightarrow> bool" where
  "holder_ok R P eh \<longleftrightarrow> list_all (kv_ok P) (entries eh) \<and> list_all (inh_ok R P) (inherits eh)"

definition pat_ok :: "(node \<Rightarrow> bool) \<Rightarrow> node pattern \<Rightarrow> bool" where
  "pat_ok P q \<longleftrightarrow>
     list_all (\<lambda>e. pe_name e \<noteq> None \<and> (case pe_default e of None \<Rightarrow> True | Some n \<Rightarrow> P n)) (pat_entries q)"

definition part_ok :: "(node \<Rightarrow> bool) \<Rightarrow> node str_part \<Rightarrow> bool" where
  "part_ok P p = (case p of SpLiteral _ \<Rightarrow> True | SpAst _ x \<Rightarrow> req P x)"

definition pattern_names :: "node pattern \<Rightarrow> string set" where
  "pattern_names q = as_str ` pattern_idents q"

lemma req_cong [fundef_cong]:
  "x = x' \<Longrightarrow> (\<And>n. n \<in> set_option x' \<Longrightarrow> P n = P' n) \<Longrightarrow> req P x = req P' x'"
  by (auto simp: req_def split: option.split)

lemma key_ok_cong [fundef_cong]: "n = n' \<Longrightarrow> P n' = P' n' \<Longrightarrow> key_ok P n = key_ok P' n'"
  by (simp add: key_ok_def)

lemma kv_ok_cong [fundef_cong]:
  assumes "k = k'" "\<And>n. n \<in> set_key_value k' \<Longrightarrow> P n = P' n"
  shows "kv_ok P k = kv_ok P' k'"
  using assms by (cases k') (auto simp: kv_ok_def req_def key_ok_def list_all_iff split: option.splits)

lemma inh_ok_cong [fundef_cong]:
  assumes "R = R'" "i = i'" "\<And>n. n \<in> set_inherit i' \<Longrightarrow> P n = P' n"
  shows "inh_ok R P i = inh_ok R' P' i'"
proof (cases "inh_from i'")
  case (Some f)
  then have "n \<in> set_inherit i'" if "inhf_inner f = Some n" for n
    using that by (cases i'; cases f) auto
  with assms Some show ?thesis by (auto simp: inh_ok_def intro!: req_cong)
qed (simp add: inh_ok_def assms)

lemma holder_ok_cong [fundef_cong]:
  assumes "R = R'" "eh = eh'" "\<And>n. n \<in> set_entry_holder eh' \<Longrightarrow> P n = P' n"
  shows "holder_ok R P eh = holder_ok R' P' eh'"
proof -
  have "kv_ok P k = kv_ok P' k" if "k \<in> set (entries eh')" for k
    using assms(3) set_entry_holder_entry [OF that] by (intro kv_ok_cong) auto
  moreover have "inh_ok R' P i = inh_ok R' P' i" if "i \<in> set (inherits eh')" for i
    using assms(3) set_entry_holder_inherit [OF that] by (intro inh_ok_cong) auto
  ultimately show ?thesis by (simp add: holder_ok_def assms list_all_iff)
qed

lemma pat_ok_cong [fundef_cong]:
  assumes "q = q'" "\<And>n. n \<in> set_pattern q' \<Longrightarrow> P n = P' n"
  shows "pat_ok P q = pat_ok P' q'"
proof -
  have "n \<in> set_pattern q'" if "e \<in> set (pat_entries q')" "pe_default e = Some n" for e n
  proof -
    have "n \<in> set_pat_entry e" by (cases e) (use that(2) in simp)
    with that(1) show ?thesis by (cases q') auto
  qed
  then show ?thesis using assms by (auto simp: pat_ok_def list_all_iff split: option.splits)
qed

lemma part_ok_cong [fundef_cong]:
  "p = p' \<Longrightarrow> (\<And>n. n \<in> set_str_part p' \<Longrightarrow> P n = P' n) \<Longrightarrow> part_ok P p = part_ok P' p'"
  by (cases p') (auto simp: part_ok_def intro!: req_cong)

lemma size_pattern_node: "node_pt y = PtPattern q \<Longrightarrow> n \<in> set_pattern q \<Longrightarrow> size n \<le> size y"
  using size_pattern_mem [of n q size] by (cases y) simp

text \<open>\<open>V\<close> are the variables in scope, \<open>w\<close> says that the expression is inside of a \<open>with\<close>.\<close>

function accepts :: "string set \<Rightarrow> bool \<Rightarrow> node \<Rightarrow> bool" where
  "accepts V w (Node m p) \<longleftrightarrow> m_trivia m \<or>
     (case p of
        PtApply l v \<Rightarrow> req (accepts V w) l \<and> req (accepts V w) v
      | PtAssert c b \<Rightarrow> req (accepts V w) c \<and> req (accepts V w) b
      | PtAttrSet r eh \<Rightarrow>
          (let V' = (if r then V \<union> bound_names eh else V)
           in holder_ok (\<lambda>x. x \<in> V' \<or> w) (accepts V' w) eh)
      | PtBinOp op l r \<Rightarrow>
          (case op of
             None \<Rightarrow> False
           | Some IsSet \<Rightarrow> req (accepts V w) l \<and> req (key_ok (accepts V w)) r
           | Some (BinOther _) \<Rightarrow> req (accepts V w) l \<and> req (accepts V w) r)
      | PtDynamic d \<Rightarrow> req (accepts V w) d
      | PtIdent s \<Rightarrow> s \<in> V \<or> w
      | PtIfElse c a b \<Rightarrow> req (accepts V w) c \<and> req (accepts V w) a \<and> req (accepts V w) b
      | PtInherit i \<Rightarrow> inh_ok (\<lambda>x. x \<in> V \<or> w) (accepts V w) i
      | PtInheritFrom i \<Rightarrow> req (accepts V w) i
      | PtLambda a b \<Rightarrow>
          (case a of
             None \<Rightarrow> False
           | Some y \<Rightarrow>
               (case node_pt y of
                  PtIdent x \<Rightarrow> req (accepts (insert x V) w) b
                | PtPattern q \<Rightarrow>
                    pat_ok (accepts (V \<union> pattern_names q) w) q \<and> req (accepts (V \<union> pattern_names q) w) b
                | _ \<Rightarrow> False))
      | PtLegacyLet eh \<Rightarrow>
          (let V' = V \<union> bound_names eh
           in legacy_body eh \<noteq> None \<and> holder_ok (\<lambda>x. x \<in> V' \<or> w) (accepts V' w) eh)
      | PtLetIn eh b \<Rightarrow>
          (let V' = V \<union> bound_names eh
           in holder_ok (\<lambda>x. x \<in> V' \<or> w) (accepts V' w) eh \<and> req (accepts V' w) b)
      | PtList l \<Rightarrow> list_all (accepts V w) l
      | PtOrDefault i d \<Rightarrow> req (accepts V w) i \<and> req (accepts V w) d
      | PtParen x \<Rightarrow> req (accepts V w) x
      | PtRoot x \<Rightarrow> req (accepts V w) x
      | PtSelect x i \<Rightarrow> req (accepts V w) x \<and> req (key_ok (accepts V w)) i
      | PtStr ps \<Rightarrow> list_all (part_ok (accepts V w)) ps
      | PtStrInterpol x \<Rightarrow> req (accepts V w) x
      | PtUnaryOp _ x \<Rightarrow> req (accepts V w) x
      | PtValue v \<Rightarrow> (case v of Inl _ \<Rightarrow> False | Inr _ \<Rightarrow> True)
      | PtWith ns b \<Rightarrow> req (accepts V w) ns \<and> req (accepts V True) b
      | _ \<Rightarrow> False)"
  by pat_completeness auto

termination
  by (relation "measure (\<lambda>(_, _, n). size n)")
    (auto simp: less_Suc_eq_le dest: size_pattern_node size_entry_holder_mem [of _ _ size]
      size_inherit_mem [of _ _ size] size_list_mem [of _ _ size] size_str_parts_mem [of _ _ _ size])

end
