(* ===== verification/Decides.thy ===== *)
theory Decides
  imports Scoping
begin

text \<open>
  A logic for actions that succeed exactly if a condition on the scope holds: its judgement
  \<open>decides\<close> and the rules for the control structures of the translator.
\<close>

section \<open>Actions that decide a condition\<close>

definition scope_of :: "('l, 'p) ctx \<Rightarrow> string set \<times> bool" where
  "scope_of c = (fst ` set (vars c), 0 < with_stack c)"

text \<open>
  \<open>decides V w V' m b\<close>: started with the variables \<open>V\<close> in scope, inside of a \<open>with\<close> if \<open>w\<close>, the
  action fails with an error only if not \<open>b\<close>, and succeeds only if \<open>b\<close>, then with the variables \<open>V'\<close>
  in scope, new ones being pushed on top of the others.
\<close>

definition decides :: "string set \<Rightarrow> bool \<Rightarrow> string set \<Rightarrow> ('l, 'p, 'a) act \<Rightarrow> bool \<Rightarrow> bool" where
  "decides V w V' m b \<longleftrightarrow>
     (\<forall>c. scope_of c = (V, w) \<longrightarrow>
        (case m c of
           Inl (Err _) \<Rightarrow> \<not> b
         | Inl (Panic _) \<Rightarrow> True
         | Inr (_, c') \<Rightarrow> b \<and> scope_of c' = (V', w) \<and> prefix (vars c) (vars c') \<and>
                         with_stack c' = with_stack c))"

lemma decidesI:
  fixes m :: "('l, 'p, 'a) act"
  assumes "\<And>c e. scope_of c = (V, w) \<Longrightarrow> m c = Inl (Err e) \<Longrightarrow> \<not> b"
    and "\<And>c x c'. scope_of c = (V, w) \<Longrightarrow> m c = Inr (x, c') \<Longrightarrow>
      b \<and> scope_of c' = (V', w) \<and> prefix (vars c) (vars c') \<and> with_stack c' = with_stack c"
  shows "decides V w V' m b"
  unfolding decides_def
proof (intro allI impI)
  fix c :: "('l, 'p) ctx" assume c: "scope_of c = (V, w)"
  show "case m c of Inl (Err _) \<Rightarrow> \<not> b | Inl (Panic _) \<Rightarrow> True
    | Inr (_, c') \<Rightarrow> b \<and> scope_of c' = (V', w) \<and> prefix (vars c) (vars c') \<and> with_stack c' = with_stack c"
  proof (cases "m c")
    case (Inl e)
    then show ?thesis using assms(1) [OF c] by (cases e) simp_all
  next
    case (Inr p)
    then show ?thesis using assms(2) [OF c] by (cases p) simp
  qed
qed

lemma decides_Err: "decides V w V' m b \<Longrightarrow> scope_of c = (V, w) \<Longrightarrow> m c = Inl (Err e) \<Longrightarrow> \<not> b"
  by (fastforce simp: decides_def)

lemma decides_Inr:
  "decides V w V' m b \<Longrightarrow> scope_of c = (V, w) \<Longrightarrow> m c = Inr (x, c') \<Longrightarrow>
   b \<and> scope_of c' = (V', w) \<and> prefix (vars c) (vars c') \<and> with_stack c' = with_stack c"
  by (fastforce simp: decides_def)

lemma decides_eq: "decides V w V' m b \<Longrightarrow> b = b' \<Longrightarrow> decides V w V' m b'"
  by simp

lemma dec_push: "decides V w V (push t) True"
  by (rule decidesI) (auto simp: tm_simps scope_of_def)

lemma dec_ret: "decides V w V (ret x) True"
  by (rule decidesI) (auto simp: tm_simps)

lemma dec_gets: "decides V w V (gets f) True"
  by (rule decidesI) (auto simp: tm_simps)

lemma dec_throw: "decides V w V' (throw e) False"
  by (rule decidesI) (auto simp: tm_simps)

lemma dec_bind_res:
  assumes "decides V w V1 m b1" and "\<And>x c c'. m c = Inr (x, c') \<Longrightarrow> decides V1 w V2 (f x) b2"
  shows "decides V w V2 (bind m f) (b1 \<and> b2)"
proof (rule decidesI)
  fix c e assume c: "scope_of c = (V, w)" "bind m f c = Inl (Err e)"
  then consider "m c = Inl (Err e)" | x c' where "m c = Inr (x, c')" "f x c' = Inl (Err e)"
    by (auto simp: bind_eq_Inl)
  then show "\<not> (b1 \<and> b2)"
  proof cases
    case 1
    then show ?thesis using decides_Err [OF assms(1) c(1)] by simp
  next
    case 2
    then show ?thesis using decides_Inr [OF assms(1) c(1) 2(1)] decides_Err [OF assms(2) [OF 2(1)] _ 2(2)] by simp
  qed
next
  fix c y c'' assume c: "scope_of c = (V, w)" "bind m f c = Inr (y, c'')"
  then obtain x c' where x: "m c = Inr (x, c')" "f x c' = Inr (y, c'')" by (auto simp: bind_eq_Inr)
  show "(b1 \<and> b2) \<and> scope_of c'' = (V2, w) \<and> prefix (vars c) (vars c'') \<and> with_stack c'' = with_stack c"
    using decides_Inr [OF assms(1) c(1) x(1)] decides_Inr [OF assms(2) [OF x(1)] _ x(2)]
    by (auto intro: prefix_order.trans)
qed

lemma dec_bind:
  "decides V w V1 m b1 \<Longrightarrow> (\<And>x. decides V1 w V2 (f x) b2) \<Longrightarrow> decides V w V2 (bind m f) (b1 \<and> b2)"
  by (rule dec_bind_res)

lemma dec_seq:
  "decides V w V m b1 \<Longrightarrow> (\<And>x. decides V w V (f x) b2) \<Longrightarrow> decides V w V (bind m f) (b1 \<and> b2)"
  by (rule dec_bind)

lemma dec_void: "decides V w V' m b \<Longrightarrow> decides V w V' (void m) b"
  using dec_bind [OF _ dec_ret, of V w V' m b] by (simp add: void_def)

lemma dec_seqs: "(\<And>x. x \<in> set xs \<Longrightarrow> decides V w V (f x) (P x)) \<Longrightarrow> decides V w V (seqs (map f xs)) (list_all P xs)"
  by (induction xs) (auto intro: dec_ret dec_bind)

lemma dec_seqs_sep:
  assumes "decides V w V sep True" "\<And>x. x \<in> set xs \<Longrightarrow> decides V w V (f x) (P x)"
  shows "decides V w V (seqs_sep fi sep (map f xs)) (list_all P xs)"
  using assms(2)
proof (induction xs arbitrary: fi)
  case (Cons x xs)
  have "decides V w V (if fi then skip else sep) True" using assms(1) by (simp add: dec_ret)
  then have "decides V w V (seqs_sep fi sep (map f (x # xs))) (True \<and> P x \<and> list_all P xs)"
    using Cons unfolding seqs_sep.simps list.map seqs.simps bind_skip by (intro dec_seq) simp_all
  then show ?case by simp
qed (simp add: dec_ret)

lemma dec_lazyness:
  assumes "\<And>s. decides V w V (m s) b" shows "decides V w V (lazyness_incoming sctx at lt adj m) b"
proof -
  have "decides V w V (lazyness_incoming sctx at lt adj m) (True \<and> b \<and> True \<and> True)"
    unfolding lazyness_incoming_eq by (intro dec_seq dec_push assms dec_ret)
  then show ?thesis by simp
qed

lemma dec_scoped: "decides V w V' m b \<Longrightarrow> decides V w V (scoped m) b"
proof (rule decidesI)
  fix c e assume m: "decides V w V' m b" and c: "scope_of c = (V, w)" "scoped m c = Inl (Err e)"
  then have "m c = Inl (Err e)" by (auto simp: scoped_def truncate_vars_def bind_eq_Inl tm_simps split: if_splits)
  then show "\<not> b" using decides_Err [OF m c(1)] by simp
next
  fix c x c'' assume m: "decides V w V' m b" and c: "scope_of c = (V, w)" "scoped m c = Inr (x, c'')"
  then obtain c' where c': "m c = Inr ((), c')" "c'' = c'\<lparr>vars := take (length (vars c)) (vars c')\<rparr>"
    by (auto simp: scoped_def truncate_vars_def bind_eq_Inr bind_eq_Inl tm_simps split: if_splits)
  from decides_Inr [OF m c(1) c'(1)]
  show "b \<and> scope_of c'' = (V, w) \<and> prefix (vars c) (vars c'') \<and> with_stack c'' = with_stack c"
    using c(1) by (auto simp: c'(2) scope_of_def prefix_def)
qed

lemma dec_in_with: assumes m: "decides V True V m b" shows "decides V w V (in_with m) b"
proof (rule decidesI)
  fix c e assume c: "scope_of c = (V, w)" "in_with m c = Inl (Err e)"
  then have "m (c\<lparr>with_stack := with_stack c + 1\<rparr>) = Inl (Err e)"
    by (auto simp: in_with_def bind_eq_Inl tm_simps)
  then show "\<not> b" using c(1) by (intro decides_Err [OF m]) (simp_all add: scope_of_def)
next
  fix c x c'' assume c: "scope_of c = (V, w)" "in_with m c = Inr (x, c'')"
  then obtain u c' where c': "m (c\<lparr>with_stack := with_stack c + 1\<rparr>) = Inr (u, c')"
    "c'' = c'\<lparr>with_stack := with_stack c' - 1\<rparr>"
    by (auto simp: in_with_def bind_eq_Inr tm_simps)
  have "scope_of (c\<lparr>with_stack := with_stack c + 1\<rparr>) = (V, True)" using c(1) by (simp add: scope_of_def)
  from decides_Inr [OF m this c'(1)] c(1)
  show "b \<and> scope_of c'' = (V, w) \<and> prefix (vars c) (vars c'') \<and> with_stack c'' = with_stack c"
    by (simp add: c'(2) scope_of_def)
qed

lemma dec_push_var: "decides V w (insert vn V) (push_var vn categ) True"
  by (rule decidesI) (auto simp: push_var_def tm_simps scope_of_def)

text \<open>The recorder does not fail with an error, and does not touch the scope.\<close>

interpretation scope_rec: recorder_rel stack_eq E "\<lambda>_. True" "\<lambda>e. \<exists>msg. e = Panic msg" for E
  by unfold_locales (auto simp: stack_eq_def)

lemma dec_frame:
  assumes "tm_rel (\<lambda>_. True) stack_eq (\<lambda>e. \<exists>msg. e = Panic msg) m" shows "decides V w V m True"
proof (rule decidesI)
  show "\<not> True" if "m c = Inl (Err e)" for c e using tm_rel_Inl [OF assms that] by simp
  show "True \<and> scope_of c' = (V, w) \<and> prefix (vars c) (vars c') \<and> with_stack c' = with_stack c"
    if "scope_of c = (V, w)" "m c = Inr (x, c')" for c x c'
    using tm_rel_Inr [OF assms that(2)] that(1) by (simp add: stack_eq_def scope_of_def)
qed

lemma dec_pos: "decides V w V (snapshot_pos E n) True"
  by (rule dec_frame) (rule scope_rec.rec_pos)

lemma dec_snapshot: "decides V w V (snapshot_ident E r (push t)) True"
  by (rule dec_frame, rule scope_rec.rec_ident) (auto simp: push_def stack_eq_def intro: tm_rel_modify)

lemma dec_list:
  assumes "list_all2 (decides V w V) ms bs" "list_all id bs = b"
  shows "decides V w V (seqs ms) b"
proof -
  have "decides V w V (seqs ms) (list_all id bs)"
    using assms(1) by induction (auto intro: dec_ret dec_seq)
  then show ?thesis by (simp add: assms(2))
qed

end
