(* ===== verification/Scope_Check.thy ===== *)
theory Scope_Check
  imports Decides
begin

text \<open>
  The translator decides the static check \<open>accepts\<close>: the rules of \<open>Decides\<close> applied to every
  method of the translator, in the order of the code, and the recursion over the tree.
\<close>

section \<open>The methods\<close>

lemma dec_line_err: "decides V w V' (line_err q msg) False"
proof -
  have "decides V w V' (line_err q msg) (True \<and> False)"
    unfolding line_err_def by (rule dec_bind [OF dec_gets dec_throw])
  then show ?thesis by simp
qed

lemma req_Some: "req P (Some n) = P n"
  by (simp add: req_def)

lemma dec_rtv:
  "(\<And>n. x = Some n \<Longrightarrow> decides V w V (tn s n) (P n)) \<Longrightarrow> decides V w V (rtv tn s q x d) (req P x)"
  using dec_line_err [of V w V q "d @ '' missing''"]
  by (cases x) (simp_all add: rtv_def req_def line_err_def)

lemma dec_escape_str: "decides V w V (translate_node_ident_escape_str E i) True"
  unfolding translate_node_ident_escape_str_def Let_def
  by (rule decides_eq [OF dec_seq [OF dec_snapshot dec_ret]]) simp

lemma dec_indexing: "decides V w V (translate_node_ident_indexing E i) True"
  unfolding translate_node_ident_indexing_def Let_def
  by (rule decides_eq [OF dec_seq [OF dec_snapshot dec_ret]]) simp

lemma dec_handle_lazyness:
  assumes "decides V w V m True" shows "decides V w V (handle_lazyness sctx m) True"
proof (cases sctx)
  case None
  with dec_seq [OF assms dec_ret] show ?thesis by (simp add: handle_lazyness_def)
next
  case (Some s)
  have "decides V w V (bind (gets (\<lambda>c. length (acc c))) (\<lambda>startpos. bind m (\<lambda>_.
      bind (acc_from startpos) (\<lambda>t. ret (Some t))))) (True \<and> True \<and> True \<and> True)"
    unfolding acc_from_def by (intro dec_seq dec_gets assms dec_ret)
  with Some show ?thesis by (simp add: handle_lazyness_def dec_lazyness)
qed

lemma dec_ident_raw: "decides V w V (translate_node_ident_raw E sctx q vn categ) True"
proof -
  have "decides V w V (if is_global_categ categ then bind (snapshot_ident E q (push t)) (\<lambda>_. ret None)
      else handle_lazyness sctx (snapshot_ident E q (push t))) True" for t
    by (cases "is_global_categ categ")
      (simp_all add: dec_handle_lazyness dec_snapshot decides_eq [OF dec_seq [OF dec_snapshot dec_ret]])
  moreover have "decides V w V (case r of None \<Rightarrow> acc_from k | Some x \<Rightarrow> ret x) True" for r k
    by (cases r) (simp_all add: acc_from_def dec_gets dec_ret)
  ultimately have "decides V w V (translate_node_ident_raw E sctx q vn categ) (True \<and> True \<and> True)"
    unfolding translate_node_ident_raw_def Let_def by (intro dec_seq dec_gets)
  then show ?thesis by simp
qed

lemma resolve_Inl: "scope_of c = (V, w) \<Longrightarrow> resolve_ident c i = Inl e \<Longrightarrow> \<not> (as_str i \<in> V \<or> w)"
  by (auto simp: resolve_ident_def scope_of_def lookup_var_None split: option.splits if_splits)

lemma resolve_Inr:
  assumes "scope_of c = (V, w)" "resolve_ident c i = Inr categ" shows "as_str i \<in> V \<or> w"
proof -
  have "as_str i \<in> fst ` set (vars c)" if "lookup_var (vars c) (as_str i) = Some k" for k
    using lookup_var_None [of "vars c" "as_str i"] that by simp
  then show ?thesis
    using assms by (auto simp: resolve_ident_def scope_of_def split: option.splits if_splits)
qed

lemma dec_ident: "decides V w V (translate_node_ident E sctx i) (as_str i \<in> V \<or> w)"
proof (rule decidesI)
  fix c e assume c: "scope_of c = (V, w)" "translate_node_ident E sctx i c = Inl (Err e)"
  have "translate_node_ident_raw E sctx (id_rng i) (as_str i) categ c \<noteq> Inl (Err e)" for categ
    using decides_Err [OF dec_ident_raw c(1)] by blast
  with c(2) obtain e' where "resolve_ident c i = Inl e'"
    by (auto simp: translate_node_ident_def bind_apply tm_simps split: sum.splits)
  then show "\<not> (as_str i \<in> V \<or> w)" by (rule resolve_Inl [OF c(1)])
next
  fix c x c' assume c: "scope_of c = (V, w)" "translate_node_ident E sctx i c = Inr (x, c')"
  then obtain categ where "resolve_ident c i = Inr categ"
    and t: "translate_node_ident_raw E sctx (id_rng i) (as_str i) categ c = Inr (x, c')"
    by (auto simp: translate_node_ident_def bind_eq_Inr tm_simps split: sum.splits)
  with resolve_Inr [OF c(1)] decides_Inr [OF dec_ident_raw c(1) t]
  show "(as_str i \<in> V \<or> w) \<and> scope_of c' = (V, w) \<and> prefix (vars c) (vars c') \<and> with_stack c' = with_stack c"
    by simp
qed

subsection \<open>Keys and entries\<close>

lemma dec_force_str:
  "(\<And>s. decides V w V (tn s n) (P n)) \<Longrightarrow>
   decides V w V (translate_node_key_element_force_str E tn n) (key_ok P n)"
  unfolding translate_node_key_element_force_str_def
  by (cases "cast_ident n") (simp_all add: key_ok_def dec_void dec_escape_str)

lemma dec_key_indexing:
  assumes "\<And>s. decides V w V (tn s n) (P n)"
  shows "decides V w V (translate_node_key_element_indexing E tn n) (key_ok P n)"
proof (cases "cast_ident n")
  case None
  have "decides V w V (seqs [push ''['', tn (mksctx Want Nothing) n, push '']'']) (True \<and> P n \<and> True)"
    unfolding seqs.simps bind_skip by (intro dec_seq dec_push assms)
  with None show ?thesis by (simp add: translate_node_key_element_indexing_def key_ok_def)
qed (simp add: translate_node_key_element_indexing_def key_ok_def dec_void dec_indexing)

text \<open>
  Without a scope object the key is a variable that has been declared before, so the
  condition is the one for keys again.
\<close>

lemma dec_scope_indexing:
  assumes "\<And>s. decides V w V (tn s n) (P n)"
    and "sc = None \<Longrightarrow> \<exists>i. cast_ident n = Some i \<and> as_str i \<in> V"
  shows "decides V w V (translate_node_scope_indexing E tn n sc) (key_ok P n)"
proof (cases sc)
  case None
  then obtain i where i: "cast_ident n = Some i" "as_str i \<in> V" using assms(2) by blast
  with None dec_void [OF dec_ident, of V w E "None" i] show ?thesis
    by (simp add: translate_node_scope_indexing_def key_ok_def)
next
  case (Some s)
  have "decides V w V (seqs [push s, translate_node_key_element_indexing E tn n]) (True \<and> key_ok P n)"
    unfolding seqs.simps bind_skip by (intro dec_seq dec_push dec_key_indexing assms(1))
  with Some show ?thesis by (simp add: translate_node_scope_indexing_def)
qed

lemma dec_kv_init:
  assumes "\<And>s. decides V w V (tn s x) (P x)"
  shows "decides V w V (case sc of None \<Rightarrow> skip | Some sc \<Rightarrow>
    seqs [push (''if(!Object.prototype.hasOwnProperty.call('' @ sc @ '',''),
      translate_node_key_element_force_str E tn x, push (''))'' @ sc),
      translate_node_key_element_indexing E tn x, push ''=Object.create(null);'']) (sc = None \<or> key_ok P x)"
proof (cases sc)
  case (Some s)
  show ?thesis
    unfolding Some option.case
    by (rule dec_list [where bs = "[True, key_ok P x, True, key_ok P x, True]"])
      (simp_all add: dec_push dec_force_str dec_key_indexing assms)
qed (simp add: dec_ret)

lemma dec_kv_path:
  assumes "\<And>s n. n \<in> insert v (insert x (set xs)) \<Longrightarrow> decides V w V (tn s n) (P n)"
    and idx: "decides V w V (translate_node_scope_indexing E tn x sc) (key_ok P x)"
  shows "decides V w V
    (seqs [case sc of None \<Rightarrow> skip | Some sc \<Rightarrow>
             seqs [push (''if(!Object.prototype.hasOwnProperty.call('' @ sc @ '',''),
               translate_node_key_element_force_str E tn x, push (''))'' @ sc),
               translate_node_key_element_indexing E tn x, push ''=Object.create(null);''],
           push (''await '' @ NIX_OPERATORS @ ''._deepMerge(''),
           translate_node_scope_indexing E tn x sc, push '','', tn vs v,
           seqs (map (\<lambda>k. seqs [push '','', translate_node_key_element_force_str E tn k]) xs),
           push '');'']) (key_ok P x \<and> P v \<and> list_all (key_ok P) xs)"
proof -
  have "decides V w V (seqs [push '','', translate_node_key_element_force_str E tn k]) (key_ok P k)"
    if "k \<in> set xs" for k
    by (rule dec_list [where bs = "[True, key_ok P k]"])
      (simp_all add: dec_push dec_force_str assms that)
  then have rest: "decides V w V (seqs (map (\<lambda>k. seqs [push '','', translate_node_key_element_force_str E tn k]) xs))
      (list_all (key_ok P) xs)"
    by (rule dec_seqs)
  have init: "decides V w V (case sc of None \<Rightarrow> skip | Some sc \<Rightarrow>
    seqs [push (''if(!Object.prototype.hasOwnProperty.call('' @ sc @ '',''),
      translate_node_key_element_force_str E tn x, push (''))'' @ sc),
      translate_node_key_element_indexing E tn x, push ''=Object.create(null);'']) (sc = None \<or> key_ok P x)"
    by (rule dec_kv_init) (simp add: assms(1))
  show ?thesis
    by (rule dec_list [where bs = "[sc = None \<or> key_ok P x, True, key_ok P x, True, P v, list_all (key_ok P) xs, True]"])
      (simp only: list_all2_Cons list_all2_Nil simp_thms dec_push init idx rest assms(1) insertI1, auto)
qed

lemma dec_kv:
  assumes tn: "\<And>s n. n \<in> set_key_value k \<Longrightarrow> decides V w V (tn s n) (P n)"
    and var: "sc = None \<Longrightarrow> \<exists>n i. first_key k = Some n \<and> cast_ident n = Some i \<and> as_str i \<in> V"
  shows "decides V w V (translate_node_kv E tn vs k sc) (kv_ok P k)"
proof (cases k)
  case (KeyValue r key v)
  consider "key = None" | "key = Some []" | "v = None" | x xs v0 where "key = Some (x # xs)" "v = Some v0"
    by (metis list.exhaust option.exhaust)
  then show ?thesis
  proof cases
    case 3
    then show ?thesis
      by (simp add: translate_node_kv_def kv_ok_def req_def KeyValue dec_line_err split: list.split option.split)
  next
    case 4
    then have mem: "insert v0 (insert x (set xs)) \<subseteq> set_key_value k" by (auto simp: KeyValue)
    have idx: "decides V w V (translate_node_scope_indexing E tn x sc) (key_ok P x)"
      using var mem by (intro dec_scope_indexing tn) (auto simp: first_key_def KeyValue 4)
    have one: "decides V w V (seqs [translate_node_scope_indexing E tn x sc, push ''='', tn vs v0, push '';''])
        (key_ok P x \<and> P v0)"
      by (rule dec_list [where bs = "[key_ok P x, True, P v0, True]"])
        (use mem in \<open>simp_all add: idx dec_push tn\<close>)
    have path: "n \<in> insert v0 (insert x (set xs)) \<Longrightarrow> decides V w V (tn s n) (P n)" for s n
      using mem by (intro tn) blast
    have ok: "kv_ok P k \<longleftrightarrow> key_ok P x \<and> P v0 \<and> list_all (key_ok P) xs"
      by (auto simp: kv_ok_def req_def KeyValue 4)
    show ?thesis
    proof (cases "xs = []")
      case True
      show ?thesis
        unfolding translate_node_kv_def
        by (simp only: KeyValue key_value.sel 4 option.case list.case True if_True simp_thms)
          (rule decides_eq [OF one], use ok True in \<open>simp add: KeyValue 4\<close>)
    next
      case False
      show ?thesis
        unfolding translate_node_kv_def ok
        by (simp only: KeyValue key_value.sel 4 option.case list.case False if_False)
          (rule dec_kv_path [OF path idx])
    qed
  qed (simp_all add: translate_node_kv_def kv_ok_def KeyValue dec_line_err)
qed

text \<open>An inherited name is a key; what is copied has to be in scope.\<close>

lemma dec_inherit_key:
  assumes "sc = None \<Longrightarrow> as_str i \<in> V"
  shows "decides V w V (translate_node_scope_indexing E tn (ident_node i) sc) True"
proof -
  have "decides V w V (translate_node_scope_indexing E (\<lambda>_ _. skip) (ident_node i) sc)
      (key_ok (\<lambda>_. True) (ident_node i))"
    by (rule dec_scope_indexing) (use assms in \<open>auto simp: dec_ret\<close>)
  then show ?thesis by (simp add: key_ok_def scope_indexing_ident [of E tn _ _ "\<lambda>_ _. skip"])
qed

lemma dec_inherit_from_one:
  assumes "\<And>s n. n \<in> set_inherit_from f \<Longrightarrow> decides V w V (tn s n) (P n)"
  shows "decides V w V (inherit_from_one E tn f i) (req P (inhf_inner f))"
  unfolding inherit_from_one_def
proof (rule dec_list [where bs = "[req P (inhf_inner f), True]"])
  have "decides V w V (tn s n) (P n)" if "inhf_inner f = Some n" for s n
    by (rule assms) (use that in \<open>cases f; simp\<close>)
  then show "list_all2 (decides V w V)
     [rtv tn (mksctx Want Nothing) (inhf_rng f) (inhf_inner f) ''inner for inherit-from'',
      void (translate_node_ident_indexing E i)] [req P (inhf_inner f), True]"
    by (simp add: dec_rtv dec_void dec_indexing)
qed simp

lemma dec_inherit_many:
  fixes m :: "('l, 'p, unit) act"
  assumes "decides V w V m b" "decides V w V ms True"
  shows "decides V w V (seqs [case u of Some x \<Rightarrow> seqs [push ''const '', push x]
      | None \<Rightarrow> push ''await (async ()=>{const nixInhR'',
    push ''='', m, push '';'', ms, if u = None then push ''})()'' else skip, push '';'']) b"
proof -
  have "decides V w V (seqs [push ''const '', push x] :: ('l, 'p, unit) act) True" for x
    by (rule dec_list [where bs = "[True, True]"]) (simp_all add: dec_push)
  then have "decides V w V ((case u of Some x \<Rightarrow> seqs [push ''const '', push x]
      | None \<Rightarrow> push ''await (async ()=>{const nixInhR'') :: ('l, 'p, unit) act) True"
    by (cases u) (simp_all only: option.case dec_push)
  then show ?thesis
    by (intro dec_list [where bs = "[True, True, b, True, True, True, True]"])
      (simp_all add: assms dec_push dec_ret del: seqs.simps)
qed

lemma dec_inherit:
  assumes tn: "\<And>s n. n \<in> set_inherit i \<Longrightarrow> decides V w V (tn s n) (P n)"
    and var: "\<And>j. sc = None \<Longrightarrow> j \<in> set (inh_idents i) \<Longrightarrow> as_str j \<in> V"
  shows "decides V w V (translate_node_inherit E tn vs i sc u) (inh_ok (\<lambda>x. x \<in> V \<or> w) P i)"
proof (cases "inh_from i")
  case None
  have "decides V w V (seqs [translate_node_scope_indexing E tn (ident_node j) sc, push ''='',
      void (translate_node_ident E (Some vs) j), push '';'']) (as_str j \<in> V \<or> w)" if "j \<in> set (inh_idents i)" for j
    using var [OF _ that]
    by (intro dec_list [where bs = "[True, True, as_str j \<in> V \<or> w, True]"])
      (simp_all add: dec_inherit_key dec_push dec_void dec_ident)
  then show ?thesis
    unfolding translate_node_inherit_def inh_ok_def None option.case by (rule dec_seqs)
next
  case (Some f)
  have f: "decides V w V (tn s n) (P n)" if "n \<in> set_inherit_from f" for s n
    using tn that Some by (cases i) auto
  have rtv: "decides V w V (rtv tn s (inhf_rng f) (inhf_inner f) d) (req P (inhf_inner f))" for s d
    by (rule dec_rtv, rule f) (cases f; simp)
  have one: "decides V w V (seqs [translate_node_scope_indexing E tn (ident_node j) sc, push ''='',
      lazyness_incoming vs Forward Need Front (\<lambda>_. inherit_from_one E tn f j), push '';''])
      (req P (inhf_inner f))" if "j \<in> set (inh_idents i)" for j
    using var [OF _ that]
    by (intro dec_list [where bs = "[True, True, req P (inhf_inner f), True]"])
      (simp_all add: dec_inherit_key dec_push dec_lazyness dec_inherit_from_one f)
  have then': "decides V w V (seqs (map (\<lambda>j. seqs [translate_node_scope_indexing E tn (ident_node j) sc,
      push (''='' @ v @ ''.then(nixV=>nixV''), void (translate_node_ident_indexing E j), push '');''])
      (inh_idents i))) True" for v
  proof (rule decides_eq, rule dec_seqs)
    show "decides V w V (seqs [translate_node_scope_indexing E tn (ident_node j) sc,
      push (''='' @ v @ ''.then(nixV=>nixV''), void (translate_node_ident_indexing E j), push '');'']) True"
      if "j \<in> set (inh_idents i)" for j
      using var [OF _ that]
      by (intro dec_list [where bs = "[True, True, True, True]"])
        (simp_all add: dec_inherit_key dec_push dec_void dec_indexing)
  qed (simp add: list_all_iff)
  have many: "decides V w V (seqs [case u of Some x \<Rightarrow> seqs [push ''const '', push x]
      | None \<Rightarrow> push ''await (async ()=>{const nixInhR'', push ''='',
      lazyness_incoming (mksctx Nothing Want) Forward Flush Front
        (\<lambda>sctx. rtv tn sctx (inhf_rng f) (inhf_inner f) ''inner for inherit-from''), push '';'',
      seqs (map (\<lambda>j. seqs [translate_node_scope_indexing E tn (ident_node j) sc,
        push (''='' @ v @ ''.then(nixV=>nixV''), void (translate_node_ident_indexing E j), push '');''])
        (inh_idents i)), if u = None then push ''})()'' else skip, push '';'']) (req P (inhf_inner f))" for v
    by (intro dec_inherit_many dec_lazyness rtv then')
  show ?thesis
  proof (cases "inh_idents i")
    case Nil
    then show ?thesis using many unfolding translate_node_inherit_def inh_ok_def Some option.case Let_def
      by (simp only: list.case)
  next
    case (Cons j js)
    then show ?thesis
    proof (cases js)
      case Nil
      with Cons one [of j] show ?thesis
        unfolding translate_node_inherit_def inh_ok_def Some option.case by (simp only: list.case list.set insertI1)
    next
      case (Cons j' js')
      with \<open>inh_idents i = j # js\<close> show ?thesis
        using many unfolding translate_node_inherit_def inh_ok_def Some option.case Let_def
        by (simp only: list.case)
    qed
  qed
qed

subsection \<open>Bindings\<close>

lemma list_all_enumerate: "list_all (\<lambda>(k, x). Q x) (enumerate n xs) = list_all Q xs"
  by (induction xs arbitrary: n) simp_all

text \<open>
  The entries of the two shapes that are not object literals. Without a scope object every
  key is one of the variables declared before.
\<close>

lemma dec_let_entries:
  assumes tn: "\<And>s n. n \<in> set_entry_holder eh \<Longrightarrow> decides V w V (tn s n) (P n)"
    and var: "sc = None \<Longrightarrow> letvar_entries eh \<and> bound_names eh \<subseteq> V"
  shows "decides V w V (let_entries E tn vs eh sc) (holder_ok (\<lambda>x. x \<in> V \<or> w) P eh)"
proof -
  have "decides V w V (translate_node_kv E tn vs k sc) (kv_ok P k)" if k: "k \<in> set (entries eh)" for k
  proof (rule dec_kv)
    show "decides V w V (tn s n) (P n)" if "n \<in> set_key_value k" for s n
      using tn set_entry_holder_entry [OF k that] .
    show "\<exists>n i. first_key k = Some n \<and> cast_ident n = Some i \<and> as_str i \<in> V" if none: "sc = None"
    proof -
      obtain n i where "first_key k = Some n" "cast_ident n = Some i"
        using var [OF none] k unfolding letvar_entries_def list_all_iff by (fastforce split: option.splits)
      moreover from this k have "as_str i \<in> bound_names eh" by (force simp: bound_names_def)
      ultimately show ?thesis using var [OF none] by blast
    qed
  qed
  then have 1: "decides V w V (seqs (map (\<lambda>k. translate_node_kv E tn vs k sc) (entries eh)))
      (list_all (kv_ok P) (entries eh))" by (rule dec_seqs)
  have "decides V w V (translate_node_inherit E tn vs i sc u) (inh_ok (\<lambda>x. x \<in> V \<or> w) P i)"
    if i: "i \<in> set (inherits eh)" for i u
  proof (rule dec_inherit)
    show "decides V w V (tn s n) (P n)" if "n \<in> set_inherit i" for s n
      using tn set_entry_holder_inherit [OF i that] .
    show "as_str j \<in> V" if "sc = None" "j \<in> set (inh_idents i)" for j
      using var [OF that(1)] that(2) i by (force simp: bound_names_def)
  qed
  then have 2: "decides V w V (seqs (map (\<lambda>(n, i). translate_node_inherit E tn vs i sc
      (Some (''nixInhR'' @ show_nat n))) (enumerate 0 (inherits eh))))
      (list_all (\<lambda>(n, i). inh_ok (\<lambda>x. x \<in> V \<or> w) P i) (enumerate 0 (inherits eh)))"
    by (intro dec_seqs) (auto simp: in_set_enumerate_eq)
  have "decides V w V (let_entries E tn vs eh sc) (list_all (kv_ok P) (entries eh) \<and>
      list_all (\<lambda>(n, i). inh_ok (\<lambda>x. x \<in> V \<or> w) P i) (enumerate 0 (inherits eh)))"
    unfolding let_entries_def seqs.simps(2) [of _ "[_]"] seqs.simps(2) [of _ "[]"] seqs.simps(1) bind_skip
    by (rule dec_seq [OF 1 2])
  then show ?thesis by (simp add: holder_ok_def list_all_enumerate)
qed

definition body_ok :: "(node \<Rightarrow> bool) \<Rightarrow> let_body \<Rightarrow> bool" where
  "body_ok P b = (case b of LetNix n \<Rightarrow> P n | ExtractScope \<Rightarrow> True)"

lemma dec_let_return:
  assumes "\<And>s n. b = LetNix n \<Longrightarrow> decides V w V (tn s n) (P n)"
  shows "decides V w V (let_return tn b sc) (body_ok P b)"
  unfolding let_return_def
  by (rule dec_list [where bs = "[True, body_ok P b]"])
    (use assms in \<open>simp_all add: body_ok_def dec_push split: let_body.split\<close>)

lemma dec_declare:
  fixes E :: "('l, 'p) ext"
  shows "decides V w (V \<union> snd ` set ks) (seqs_sep fi (push '','') (map (let_declare E) ks)) True"
proof (induction ks arbitrary: V fi)
  case (Cons k ks)
  obtain q vn where k: "k = (q, vn)" by fastforce
  have sep: "decides V w V ((if fi then skip else push '','') :: ('l, 'p, unit) act) True"
    by (simp add: dec_ret dec_push)
  have one: "decides V w (insert vn V) (let_declare E k) (True \<and> True)"
    unfolding let_declare_def k prod.case seqs.simps bind_skip
    by (rule dec_bind [OF dec_push_var dec_void [OF dec_ident_raw]])
  have "decides V w (insert vn V \<union> snd ` set ks) (seqs_sep fi (push '','') (map (let_declare E) (k # ks)))
      (True \<and> (True \<and> True) \<and> True)"
    unfolding seqs_sep.simps list.map seqs.simps bind_skip
    by (rule dec_bind [OF sep dec_bind [OF one Cons.IH]])
  then show ?case by (simp add: k)
qed (simp add: dec_ret)

lemma dec_push_vars:
  "decides V w (V \<union> snd ` set ks)
    (seqs (map (\<lambda>(_, i). push_var i LetInScopeVar) ks) :: ('l, 'p, unit) act) True"
proof (induction ks arbitrary: V)
  case (Cons k ks)
  have "decides V w (insert (snd k) V \<union> snd ` set ks) (seqs (map (\<lambda>(_, i). push_var i LetInScopeVar) (k # ks)) :: ('l, 'p, unit) act)
      (True \<and> True)"
    unfolding list.map seqs.simps case_prod_beta
    by (rule dec_bind [OF dec_push_var Cons.IH [unfolded case_prod_beta]])
  then show ?case by simp
qed (simp add: dec_ret)

text \<open>The object literal.\<close>

definition pair_ok :: "(string \<Rightarrow> bool) \<Rightarrow> (node \<Rightarrow> bool) \<Rightarrow> ident \<times> node inherit_from option \<Rightarrow> bool" where
  "pair_ok R P p =
     (case p of (i, x) \<Rightarrow> (case x of None \<Rightarrow> R (as_str i) | Some f \<Rightarrow> req P (inhf_inner f)))"

lemma pair_ok_inherits:
  assumes "simple_inherits eh"
  shows "list_all (pair_ok R P) (inherit_pairs eh) = list_all (inh_ok R P) (inherits eh)"
proof -
  have "(\<forall>j \<in> set (inh_idents i). pair_ok R P (j, inh_from i)) = inh_ok R P i"
    if "i \<in> set (inherits eh)" for i
  proof (cases "inh_from i")
    case (Some f)
    with assms that have "length (inh_idents i) = 1" by (auto simp: simple_inherits_def list_all_iff)
    then have "inh_idents i \<noteq> []" by auto
    with Some show ?thesis by (auto simp: pair_ok_def inh_ok_def)
  qed (simp add: pair_ok_def inh_ok_def list_all_iff)
  then show ?thesis by (force simp: inherit_pairs_def list_all_iff)
qed

lemma dec_object_entry:
  assumes "\<And>s n. n \<in> set_key_value k \<Longrightarrow> decides V w V (tn s n) (P n)"
    and k: "kv_key k = Some [n]" "kv_value k = Some v" "cast_ident n = Some i"
  shows "decides V w V (let_object_entry E tn vs k) (kv_ok P k)"
proof -
  have "v \<in> set_key_value k" using k by (cases k) auto
  then have "decides V w V (seqs [void (translate_node_ident_escape_str E i), push '':'', tn vs v]) (P v)"
    by (intro dec_list [where bs = "[True, True, P v]"]) (simp_all add: dec_void dec_escape_str dec_push assms(1))
  then show ?thesis by (simp add: let_object_entry_def first_key_def kv_ok_def req_def key_ok_def k del: seqs.simps)
qed

lemma dec_object_inherit:
  assumes "\<And>s n f. x = Some f \<Longrightarrow> n \<in> set_inherit_from f \<Longrightarrow> decides V w V (tn s n) (P n)"
  shows "decides V w V (let_object_inherit E tn vs (i, x)) (pair_ok (\<lambda>x. x \<in> V \<or> w) P (i, x))"
proof -
  have "decides V w V (case x of
      Some x \<Rightarrow> lazyness_incoming vs Flush Flush Front (\<lambda>_. inherit_from_one E tn x i)
    | None \<Rightarrow> void (translate_node_ident E (Some vs) i)) (pair_ok (\<lambda>x. x \<in> V \<or> w) P (i, x))"
    using assms by (cases x) (simp_all add: pair_ok_def dec_void dec_ident dec_lazyness dec_inherit_from_one)
  then show ?thesis
    unfolding let_object_inherit_def prod.case
    by (intro dec_list [where bs = "[True, True, pair_ok (\<lambda>x. x \<in> V \<or> w) P (i, x)]"])
      (simp_all add: dec_void dec_escape_str dec_push)
qed

lemma dec_let_object:
  fixes E :: "('l, 'p) ext"
  assumes tn: "\<And>s n. n \<in> set_entry_holder eh \<Longrightarrow> decides V w V (tn s n) (P n)"
    and obj: "object_entries eh" "simple_inherits eh"
  shows "decides V w V (let_object E tn vs eh) (holder_ok (\<lambda>x. x \<in> V \<or> w) P eh)"
proof -
  have sep: "decides V w V (push '','' :: ('l, 'p, unit) act) True" by (rule dec_push)
  have "decides V w V (let_object_entry E tn vs k) (kv_ok P k)" if k: "k \<in> set (entries eh)" for k
  proof -
    from object_entriesD [OF obj(1) k] obtain n v i
      where "kv_key k = Some [n]" "kv_value k = Some v" "cast_ident n = Some i" .
    then show ?thesis using tn set_entry_holder_entry [OF k] by (intro dec_object_entry) auto
  qed
  note 1 = dec_seqs_sep [OF sep this]
  have "decides V w V (let_object_inherit E tn vs p) (pair_ok (\<lambda>x. x \<in> V \<or> w) P p)"
    if "p \<in> set (inherit_pairs eh)" for p
  proof -
    obtain i f where p: "p = (i, f)" by fastforce
    with that obtain inh where inh: "inh \<in> set (inherits eh)" "inh_from inh = f"
      by (auto elim: inherit_pairs_mem)
    have "n \<in> set_entry_holder eh" if "f = Some g" "n \<in> set_inherit_from g" for n g
      by (rule set_entry_holder_inherit [OF inh(1)]) (use that inh in \<open>cases inh; auto\<close>)
    then show ?thesis unfolding p using tn by (intro dec_object_inherit) blast
  qed
  note 2 = dec_seqs_sep [OF sep this]
  have "decides V w V (seqs_sep True (push '','') (map (let_object_entry E tn vs) (entries eh) @
      map (let_object_inherit E tn vs) (inherit_pairs eh)))
      (list_all (kv_ok P) (entries eh) \<and> list_all (pair_ok (\<lambda>x. x \<in> V \<or> w) P) (inherit_pairs eh))"
    unfolding seqs_sep_append by (rule dec_seq [OF 1 2])
  then have "decides V w V (seqs_sep True (push '','') (map (let_object_entry E tn vs) (entries eh) @
      map (let_object_inherit E tn vs) (inherit_pairs eh))) (holder_ok (\<lambda>x. x \<in> V \<or> w) P eh)"
    by (simp add: holder_ok_def pair_ok_inherits [OF obj(2)])
  then show ?thesis
    unfolding let_object_def
    by (intro dec_list [where bs = "[True, holder_ok (\<lambda>x. x \<in> V \<or> w) P eh, True]"]) (simp_all add: dec_push)
qed

text \<open>The other two shapes; inside, the bound names are in scope.\<close>

lemma dec_let_vars:
  fixes E :: "('l, 'p) ext"
  assumes tn: "\<And>s n. n \<in> set_entry_holder eh \<Longrightarrow> decides V' w V' (tn s n) (P n)"
    and b: "\<And>s n. b = LetNix n \<Longrightarrow> decides V' w V' (tn s n) (P n)"
    and V': "V' = V \<union> bound_names eh" and eh: "letvar_entries eh"
  shows "decides V w V (let_vars E tn vs eh b sc) (holder_ok (\<lambda>x. x \<in> V' \<or> w) P eh \<and> body_ok P b)"
proof -
  have decl: "decides V w V' (seqs_sep True (push '','') (map (let_declare E) (getkeys eh))) True"
    using dec_declare [of V w "getkeys eh" True E] by (simp add: V' getkeys_names)
  have entries: "decides V' w V' (let_entries E tn vs eh None) (holder_ok (\<lambda>x. x \<in> V' \<or> w) P eh)"
    by (rule dec_let_entries) (use tn eh V' in auto)
  have inner: "decides V' w V' (seqs [push '';'', let_entries E tn vs eh None, let_return tn b sc, push '';}''])
      (holder_ok (\<lambda>x. x \<in> V' \<or> w) P eh \<and> body_ok P b)"
    using b
    by (intro dec_list [where bs = "[True, holder_ok (\<lambda>x. x \<in> V' \<or> w) P eh, body_ok P b, True]"])
      (simp_all add: dec_push entries dec_let_return)
  have start: "decides V w V (push ''{let '' :: ('l, 'p, unit) act) True" by (rule dec_push)
  have "decides V w V' (seqs [push ''{let '', seqs_sep True (push '','') (map (let_declare E) (getkeys eh)),
      push '';'', let_entries E tn vs eh None, let_return tn b sc, push '';}''])
      (True \<and> True \<and> (holder_ok (\<lambda>x. x \<in> V' \<or> w) P eh \<and> body_ok P b))"
    unfolding seqs.simps(2) [of "push ''{let ''"] seqs.simps(2) [of "seqs_sep _ _ _"]
    by (rule dec_bind [OF start dec_bind [OF decl inner]])
  then show ?thesis unfolding let_vars_def by (intro dec_scoped) simp
qed

lemma dec_let_scope:
  fixes E :: "('l, 'p) ext"
  assumes tn: "\<And>s n. n \<in> set_entry_holder eh \<Longrightarrow> decides V' w V' (tn s n) (P n)"
    and b: "\<And>s n. b = LetNix n \<Longrightarrow> decides V' w V' (tn s n) (P n)"
    and V': "V' = (if sc = NIX_IN_SCOPE then V \<union> bound_names eh else V)"
  shows "decides V w V (let_scope E tn vs eh b sc) (holder_ok (\<lambda>x. x \<in> V' \<or> w) P eh \<and> body_ok P b)"
proof -
  let ?decl = "if sc = NIX_IN_SCOPE then seqs (map (\<lambda>(_, i). push_var i LetInScopeVar) (getkeys eh)) else skip"
  have decl: "decides V w V' (?decl :: ('l, 'p, unit) act) True"
    using dec_push_vars [of V w "getkeys eh", where ?'l = 'l and ?'p = 'p] by (simp add: V' getkeys_names dec_ret)
  have entries: "decides V' w V' (let_entries E tn vs eh (Some sc)) (holder_ok (\<lambda>x. x \<in> V' \<or> w) P eh)"
    by (rule dec_let_entries) (use tn in auto)
  have inner: "decides V' w V' (seqs [let_entries E tn vs eh (Some sc), let_return tn b sc,
      push '';})(nixBlti.mkScope('', if sc = NIX_IN_SCOPE then push NIX_IN_SCOPE else skip])
      (holder_ok (\<lambda>x. x \<in> V' \<or> w) P eh \<and> body_ok P b)"
    using b entries
    by (intro dec_list [where bs = "[holder_ok (\<lambda>x. x \<in> V' \<or> w) P eh, body_ok P b, True, True]"])
      (simp_all add: dec_push dec_ret dec_let_return)
  have "decides V w V' (seqs [?decl, let_entries E tn vs eh (Some sc), let_return tn b sc,
      push '';})(nixBlti.mkScope('', if sc = NIX_IN_SCOPE then push NIX_IN_SCOPE else skip])
      (True \<and> (holder_ok (\<lambda>x. x \<in> V' \<or> w) P eh \<and> body_ok P b))"
    unfolding seqs.simps(2) [of ?decl] by (rule dec_bind [OF decl inner])
  then have "decides V w V (scoped (seqs [?decl, let_entries E tn vs eh (Some sc), let_return tn b sc,
      push '';})(nixBlti.mkScope('', if sc = NIX_IN_SCOPE then push NIX_IN_SCOPE else skip]))
      (holder_ok (\<lambda>x. x \<in> V' \<or> w) P eh \<and> body_ok P b)"
    by (intro dec_scoped) simp
  then show ?thesis
    unfolding let_scope_def
    by (intro dec_list [where bs = "[True, holder_ok (\<lambda>x. x \<in> V' \<or> w) P eh \<and> body_ok P b, True]"])
      (simp_all add: dec_push)
qed

lemma dec_translate_let:
  fixes E :: "('l, 'p) ext"
  assumes tn: "\<And>s n. n \<in> set_entry_holder eh \<Longrightarrow> decides V' w V' (tn s n) (P n)"
    and b: "\<And>s n. b = LetNix n \<Longrightarrow> decides V' w V' (tn s n) (P n)"
    and V': "V' = (if sc = NIX_IN_SCOPE then V \<union> bound_names eh else V)"
  shows "decides V w V (translate_let E tn s lz eh b sc) (holder_ok (\<lambda>x. x \<in> V' \<or> w) P eh \<and> body_ok P b)"
proof (cases "entries eh = [] \<and> inherits eh = []")
  case True
  then have "V' = V" by (simp add: V' bound_names_def)
  with True b show ?thesis
    by (cases b) (simp_all add: translate_let_def holder_ok_def body_ok_def dec_push)
next
  case False
  let ?ok = "holder_ok (\<lambda>x. x \<in> V' \<or> w) P eh \<and> body_ok P b"
  have 1: "decides V w V (let_object E tn v eh) ?ok"
    if "sc \<noteq> NIX_IN_SCOPE" "b = ExtractScope" "object_entries eh" "simple_inherits eh" for v
  proof -
    have "V' = V" by (simp add: V' that)
    with dec_let_object [of eh V w tn P E v] tn that show ?thesis by (simp add: body_ok_def)
  qed
  have 2: "decides V w V (let_vars E tn v eh b sc) ?ok"
    if "sc = NIX_IN_SCOPE" "letvar_entries eh" for v
    by (rule dec_let_vars [OF tn b _ that(2)]) (use V' that in simp_all)
  have 3: "decides V w V (let_scope E tn v eh b sc) ?ok" for v
    by (rule dec_let_scope [OF tn b V'])
  show ?thesis
    unfolding translate_let_def Let_def using False 1 2 3
    by (simp only: if_False split: if_split) (auto intro!: dec_lazyness simp del: Un_iff)
qed

subsection \<open>Lambda\<close>

lemma dec_pattern_entries:
  "decides V w (V \<union> as_str ` (\<Union>e \<in> set ps. set_option (pe_name e))) (pattern_entries d ps :: ('l, 'p, (ident \<times> node option) list) act)
     (list_all (\<lambda>e. pe_name e \<noteq> None) ps)"
proof (induction ps arbitrary: V)
  case (Cons e ps)
  show ?case
  proof (cases "pe_name e")
    case None
    then show ?thesis by (simp add: dec_throw)
  next
    case (Some z)
    have "decides V w (insert (as_str z) V \<union> as_str ` (\<Union>e \<in> set ps. set_option (pe_name e)))
        (bind (push_var (as_str z) LambdaArg) (\<lambda>_. bind (pattern_entries d ps) (\<lambda>es. ret ((z, pe_default e) # es)))
          :: ('l, 'p, (ident \<times> node option) list) act)
        (True \<and> list_all (\<lambda>e. pe_name e \<noteq> None) ps \<and> True)"
      by (rule dec_bind [OF dec_push_var dec_bind [OF Cons.IH dec_ret]])
    then show ?thesis by (simp add: Some)
  qed
qed (simp add: dec_ret)

lemma dec_argname:
  "decides V w (V \<union> as_str ` set_option at) (lambda_argname E at) True"
proof (cases at)
  case None
  then show ?thesis using decides_eq [OF dec_seq [OF dec_push dec_ret]] by (simp add: lambda_argname_def)
next
  case (Some z)
  have "decides V w (insert (as_str z) V) (bind (push_var (as_str z) LambdaArg) (\<lambda>_. translate_node_ident E None z))
      (True \<and> (as_str z \<in> insert (as_str z) V \<or> w))"
    by (rule dec_bind [OF dec_push_var dec_ident])
  then show ?thesis by (simp add: Some lambda_argname_def)
qed

lemma dec_lambda_entry:
  assumes "\<And>s n. snd p = Some n \<Longrightarrow> decides V w V (tn s n) (P n)" "as_str (fst p) \<in> V"
  shows "decides V w V (lambda_entry E tn arg p) (case snd p of None \<Rightarrow> True | Some n \<Rightarrow> P n)"
proof -
  have dfl: "decides V w V (case snd p of None \<Rightarrow> skip | Some z \<Rightarrow> seqs [push '','', tn (mksctx Nothing Want) z])
      (case snd p of None \<Rightarrow> True | Some n \<Rightarrow> P n)"
  proof (cases "snd p")
    case (Some z)
    then have "decides V w V (seqs [push '','', tn (mksctx Nothing Want) z]) (P z)"
      by (intro dec_list [where bs = "[True, P z]"]) (simp_all add: dec_push assms(1))
    with Some show ?thesis by (simp del: seqs.simps)
  qed (simp add: dec_ret)
  have z: "decides V w V (void (translate_node_ident E None (fst p))) True"
    using dec_void [OF dec_ident, of V w E None "fst p"] assms(2) by simp
  show ?thesis
    unfolding lambda_entry_def case_prod_beta
    by (rule dec_list [where bs = "[True, True, True, True, case snd p of None \<Rightarrow> True | Some n \<Rightarrow> P n, True]"])
      (simp_all add: dfl z dec_push dec_void dec_escape_str del: seqs.simps)
qed

lemma dec_lambda_pattern:
  fixes E :: "('l, 'p) ext"
  assumes tn: "\<And>s n. n \<in> set_pattern y \<Longrightarrow> decides V' w V' (tn s n) (P n)"
    and b: "\<And>s n. body = Some n \<Longrightarrow> decides V' w V' (tn s n) (P n)"
    and V': "V' = V \<union> pattern_names y"
  shows "decides V w V' (lambda_pattern E tn r y body) (pat_ok P y \<and> req P body)"
proof -
  let ?dfl = "\<lambda>e. case pe_default e of None \<Rightarrow> True | Some n \<Rightarrow> P n"
  let ?V1 = "V \<union> as_str ` set_option (pat_at y)"
  have V1: "?V1 \<union> as_str ` (\<Union>e \<in> set (pat_entries y). set_option (pe_name e)) = V'"
    by (auto simp: V' pattern_names_def pattern_idents_def)
  have main: "decides V' w V' (seqs [push ''=>{'', push a, push ''=await '', push a, push '';'',
      seqs (map (lambda_entry E tn a) es), push ''return '',
      rtv tn (mksctx Want Nothing) r body ''body for lambda''])
      (list_all ?dfl (pat_entries y) \<and> req P body)"
    if es: "pattern_entries (pat_dbg y) (pat_entries y) c = Inr (es, c')" for a es c c'
  proof -
    have one: "decides V' w V' (lambda_entry E tn a p) (case snd p of None \<Rightarrow> True | Some n \<Rightarrow> P n)"
      if "p \<in> set es" for p
    proof -
      from pattern_entries_mem [OF es that] obtain e
        where e: "e \<in> set (pat_entries y)" "pe_name e = Some (fst p)" "pe_default e = snd p" .
      have "n \<in> set_pattern y" if "snd p = Some n" for n
      proof -
        have "n \<in> set_pat_entry e" by (cases e) (use e(3) that in simp)
        with e(1) show ?thesis by (cases y) auto
      qed
      moreover have "as_str (fst p) \<in> V'"
        using e(1,2) by (force simp: V' pattern_names_def pattern_idents_def)
      ultimately show ?thesis using tn by (intro dec_lambda_entry) auto
    qed
    have loop: "decides V' w V' (seqs (map (lambda_entry E tn a) es))
        (list_all (\<lambda>p. case snd p of None \<Rightarrow> True | Some n \<Rightarrow> P n) es)"
      by (rule dec_seqs) (rule one)
    have "list_all (\<lambda>p. case snd p of None \<Rightarrow> True | Some n \<Rightarrow> P n) es = list_all ?dfl (pat_entries y)"
      by (simp add: pattern_entries_result [OF es] list_all_iff)
    then show ?thesis
      using loop b
      by (intro dec_list [where bs = "[True, True, True, True, True, list_all ?dfl (pat_entries y), True, req P body]"])
        (simp_all add: dec_push dec_rtv)
  qed
  have "decides V w V' (lambda_pattern E tn r y body)
      (True \<and> list_all (\<lambda>e. pe_name e \<noteq> None) (pat_entries y) \<and> (list_all ?dfl (pat_entries y) \<and> req P body))"
    unfolding lambda_pattern_def
    by (rule dec_bind [OF dec_argname dec_bind_res [OF dec_pattern_entries [of ?V1 w "pat_entries y" "pat_dbg y", unfolded V1] main]])
  then show ?thesis by (rule decides_eq) (auto simp: pat_ok_def list_all_iff)
qed

definition lambda_ok :: "(string set \<Rightarrow> node \<Rightarrow> bool) \<Rightarrow> string set \<Rightarrow> node option \<Rightarrow> node option \<Rightarrow> bool" where
  "lambda_ok A V a b =
     (case a of
        None \<Rightarrow> False
      | Some y \<Rightarrow>
          (case node_pt y of
             PtIdent x \<Rightarrow> req (A (insert x V)) b
           | PtPattern q \<Rightarrow> pat_ok (A (V \<union> pattern_names q)) q \<and> req (A (V \<union> pattern_names q)) b
           | _ \<Rightarrow> False))"

lemma dec_lambda:
  fixes E :: "('l, 'p) ext"
  assumes tn: "\<And>V s n. n \<in> subnodes (PtLambda a b) \<Longrightarrow> decides V w V (tn s n) (A V n)"
  shows "decides V w V (node_lambda E tn r d a b) (lambda_ok A V a b)"
proof (cases a)
  case None
  then show ?thesis by (simp add: node_lambda_def lambda_ok_def dec_throw)
next
  case (Some y)
  obtain m p where y: "y = Node m p" by (cases y)
  have b: "decides U w U (tn s n) (A U n)" if "b = Some n" for U s n
    using tn that by (simp add: subnodes_def)
  let ?arg = "case cast_ident y of
      Some y \<Rightarrow> seqs [scoped (seqs [push_var (as_str y) LambdaArg, void (translate_node_ident E None y),
        push ''=>('', rtv tn (mksctx Want Nothing) r b ''body for lambda'']), push '')'']
    | None \<Rightarrow> (case cast_pattern y of
         Some y \<Rightarrow> seqs [scoped (lambda_pattern E tn r y b), push ''}'']
       | None \<Rightarrow> throw (Err (''lambda ('' @ d @ '') with invalid argument'')))"
  have "decides V w V ?arg (lambda_ok A V a b)"
  proof (cases "cast_ident y")
    case j: (Some j)
    then have p: "p = PtIdent (as_str j)" by (auto simp: y cast_ident_Some ident_node_def split: ident.splits)
    have id: "decides (insert (as_str j) V) w (insert (as_str j) V) (void (translate_node_ident E None j)) True"
      using dec_void [OF dec_ident, of "insert (as_str j) V" w E None j] by simp
    have "decides (insert (as_str j) V) w (insert (as_str j) V) (seqs [void (translate_node_ident E None j), push ''=>('',
        rtv tn (mksctx Want Nothing) r b ''body for lambda'']) (req (A (insert (as_str j) V)) b)"
      by (rule dec_list [where bs = "[True, True, req (A (insert (as_str j) V)) b]"])
        (simp_all add: id dec_push dec_rtv b)
    note body = dec_bind [OF dec_push_var this]
    have "decides V w V (seqs [scoped (seqs [push_var (as_str j) LambdaArg, void (translate_node_ident E None j),
        push ''=>('', rtv tn (mksctx Want Nothing) r b ''body for lambda'']), push '')''])
        (req (A (insert (as_str j) V)) b)"
      using dec_scoped [OF body [folded seqs.simps(2)]]
      by (intro dec_list [where bs = "[req (A (insert (as_str j) V)) b, True]"]) (simp_all add: dec_push del: seqs.simps)
    moreover have "lambda_ok A V a b = req (A (insert (as_str j) V)) b"
      by (simp add: lambda_ok_def Some y p)
    ultimately show ?thesis unfolding j option.case by simp
  next
    case None
    show ?thesis
    proof (cases "cast_pattern y")
      case None
      then show ?thesis
        using \<open>cast_ident y = None\<close>
        by (cases p) (simp_all add: lambda_ok_def Some y cast_pattern_def cast_ident_def dec_throw)
    next
      case q: (Some q)
      then have p: "p = PtPattern q" by (cases p) (simp_all add: y cast_pattern_def)
      let ?V' = "V \<union> pattern_names q"
      have tnq: "decides U w U (tn s n) (A U n)" if "n \<in> set_pattern q" for U s n
        using tn that by (simp add: subnodes_def Some y p)
      have "decides V w V (scoped (lambda_pattern E tn r q b)) (pat_ok (A ?V') q \<and> req (A ?V') b)"
        by (rule dec_scoped, rule dec_lambda_pattern [OF tnq b refl])
      then have "decides V w V (seqs [scoped (lambda_pattern E tn r q b), push ''}''])
          (pat_ok (A ?V') q \<and> req (A ?V') b)"
        by (intro dec_list [where bs = "[pat_ok (A ?V') q \<and> req (A ?V') b, True]"]) (simp_all add: dec_push)
      moreover have "lambda_ok A V a b \<longleftrightarrow> pat_ok (A ?V') q \<and> req (A ?V') b"
        by (simp add: lambda_ok_def Some y p)
      ultimately show ?thesis unfolding None q option.case by simp
    qed
  qed
  then show ?thesis
    unfolding node_lambda_def Some option.case
    by (intro dec_list [where bs = "[True, lambda_ok A V (Some y) b, True]"]) (simp_all add: dec_push del: seqs.simps)
qed

subsection \<open>The other arms\<close>

lemma dec_apply:
  assumes "\<And>s n. n \<in> subnodes (PtApply l v) \<Longrightarrow> decides V w V (tn s n) (P n)"
  shows "decides V w V (node_apply tn sctx r l v) (req P l \<and> req P v)"
proof -
  have "decides V w V (rtv tn s r x d) (req P x)" if "x \<in> {l, v}" for s x d
    using that by (auto intro!: dec_rtv assms simp: subnodes_def)
  then show ?thesis
    unfolding node_apply_def
    by (intro dec_lazyness dec_list [where bs = "[True, req P l, True, req P v, True]"]) (simp_all add: dec_push)
qed

lemma dec_assert:
  fixes E :: "('l, 'p) ext"
  assumes tn: "\<And>s n. n \<in> subnodes (PtAssert x b) \<Longrightarrow> decides V w V (tn s n) (P n)"
  shows "decides V w V (node_assert E tn sctx r x b) (req P x \<and> req P b)"
proof -
  have b: "decides V w V (rtv tn s r b d) (req P b)" for s d
    by (auto intro!: dec_rtv tn simp: subnodes_def)
  have "decides V w V (case x of
       None \<Rightarrow> line_err r ''condition for assert missing''
     | Some cond \<Rightarrow>
         seqs [bind (gets inp) (\<lambda>s. push (escape_str E
                 (''line '' @ show_nat (txtrng_to_lineno s r) @ '': '' @ node_text cond))),
               push '','',
               tn (mksctx Nothing Nothing) cond,
               push ''); return ('',
               rtv tn (mksctx Want Nothing) r b ''body for assert'',
               push ''); }'']) (req P x \<and> req P b)"
  proof (cases x)
    case None
    then show ?thesis by (simp add: req_def dec_line_err)
  next
    case (Some n)
    have msg: "decides V w V (bind (gets inp) (\<lambda>s. push (g s) :: ('l, 'p, unit) act)) True" for g
      by (rule decides_eq [OF dec_seq [OF dec_gets dec_push]]) simp
    show ?thesis
      unfolding Some option.case
      by (rule dec_list [where bs = "[True, True, P n, True, req P b, True]"])
        (simp_all add: msg b dec_push tn subnodes_def Some req_Some)
  qed
  then show ?thesis
    unfolding node_assert_def
    by (intro dec_lazyness dec_list [where bs = "[True, True, True, req P x \<and> req P b]"])
      (simp_all add: dec_push del: seqs.simps)
qed

definition binop_ok :: "(node \<Rightarrow> bool) \<Rightarrow> binop_kind option \<Rightarrow> node option \<Rightarrow> node option \<Rightarrow> bool" where
  "binop_ok P op l r =
     (case op of
        None \<Rightarrow> False
      | Some IsSet \<Rightarrow> req P l \<and> req (key_ok P) r
      | Some (BinOther _) \<Rightarrow> req P l \<and> req P r)"

lemma dec_binop:
  assumes tn: "\<And>s n. n \<in> subnodes (PtBinOp op l x) \<Longrightarrow> decides V w V (tn s n) (P n)"
  shows "decides V w V (node_binop E tn sctx r op l x) (binop_ok P op l x)"
proof -
  have sides: "decides V w V (rtv tn s r y d) (req P y)" if "y \<in> {l, x}" for s y d
    using that by (auto intro!: dec_rtv tn simp: subnodes_def)
  have key: "decides V w V (case x of
       None \<Rightarrow> line_err r ''rhs for binop ? missing''
     | Some x \<Rightarrow> (case cast_ident x of
         Some y \<Rightarrow> void (translate_node_ident_escape_str E y)
       | None \<Rightarrow> tn (mksctx Want Nothing) x)) (req (key_ok P) x)"
  proof (cases x)
    case (Some n)
    then have "n \<in> subnodes (PtBinOp op l x)" by (simp add: subnodes_def)
    from dec_void [OF dec_escape_str] tn [OF this] show ?thesis
      by (auto simp: Some req_def key_ok_def split: option.split)
  qed (simp add: req_def dec_line_err)
  have isset: "decides V w V (node_binop E tn sctx r (Some IsSet) l x) (binop_ok P (Some IsSet) l x)"
    unfolding node_binop_def binop_ok_def option.case binop_kind.case
    by (rule dec_list [where bs = "[True, req P l, True, req (key_ok P) x, True]"])
      (simp_all add: sides key dec_push)
  have other: "decides V w V (node_binop E tn sctx r (Some (BinOther s)) l x) (binop_ok P (Some (BinOther s)) l x)" for s
    unfolding node_binop_def binop_ok_def option.case binop_kind.case
    by (intro dec_lazyness dec_list [where bs = "[True, req P l, True, req P x, True]"])
      (simp_all add: sides dec_push)
  show ?thesis
  proof (cases op)
    case None
    then show ?thesis by (simp add: node_binop_def binop_ok_def dec_line_err)
  next
    case (Some k)
    then show ?thesis using isset other by (cases k) simp_all
  qed
qed

lemma dec_ifelse:
  assumes "\<And>s n. n \<in> subnodes (PtIfElse x a b) \<Longrightarrow> decides V w V (tn s n) (P n)"
  shows "decides V w V (node_ifelse tn sctx r x a b) (req P x \<and> req P a \<and> req P b)"
proof -
  have "decides V w V (rtv tn s r y d) (req P y)" if "y \<in> {x, a, b}" for s y d
    using that by (auto intro!: dec_rtv assms simp: subnodes_def)
  then show ?thesis
    unfolding node_ifelse_def
    by (intro dec_lazyness dec_list [where bs = "[True, req P x, True, req P a, True, req P b, True]"])
      (simp_all add: dec_push)
qed

text \<open>The body of a legacy \<open>let\<close> is one of its entries, so the check of the entries covers it.\<close>

lemma legacy_body_ok: "legacy_body eh = Some n \<Longrightarrow> holder_ok R P eh \<Longrightarrow> P n"
  by (auto simp: legacy_body_def Option.bind_eq_Some_conv find_Some_iff holder_ok_def list_all_length
    kv_ok_def req_def)

lemma dec_legacy_let:
  fixes E :: "('l, 'p) ext"
  assumes tn: "\<And>s n. n \<in> set_entry_holder eh \<Longrightarrow> decides V' w V' (tn s n) (P n)"
    and V': "V' = V \<union> bound_names eh"
  shows "decides V w V (node_legacy_let E tn sctx r eh)
    (legacy_body eh \<noteq> None \<and> holder_ok (\<lambda>x. x \<in> V' \<or> w) P eh)"
proof (cases "legacy_body eh")
  case None
  then show ?thesis by (simp add: node_legacy_let_def dec_line_err)
next
  case (Some n)
  have "decides V w V (translate_let E tn sctx True eh (LetNix n) NIX_IN_SCOPE)
      (holder_ok (\<lambda>x. x \<in> V' \<or> w) P eh \<and> body_ok P (LetNix n))"
    by (rule dec_translate_let) (use tn is_body_value [OF Some] V' in auto)
  then show ?thesis
    using legacy_body_ok [OF Some]
    by (simp add: node_legacy_let_def Some body_ok_def) (erule decides_eq, blast)
qed

lemma dec_let_in:
  fixes E :: "('l, 'p) ext"
  assumes tn: "\<And>s n. n \<in> subnodes (PtLetIn eh b) \<Longrightarrow> decides V' w V' (tn s n) (P n)"
    and V': "V' = V \<union> bound_names eh"
  shows "decides V w V (node_let_in E tn sctx r eh b) (holder_ok (\<lambda>x. x \<in> V' \<or> w) P eh \<and> req P b)"
proof (cases b)
  case None
  then show ?thesis by (simp add: node_let_in_def req_def dec_line_err)
next
  case (Some n)
  have "decides V w V (translate_let E tn sctx True eh (LetNix n) NIX_IN_SCOPE)
      (holder_ok (\<lambda>x. x \<in> V' \<or> w) P eh \<and> body_ok P (LetNix n))"
    by (rule dec_translate_let) (use tn V' Some in \<open>auto simp: subnodes_def\<close>)
  then show ?thesis by (simp add: node_let_in_def Some body_ok_def req_def)
qed

lemma dec_node_list:
  assumes "\<And>s n. n \<in> subnodes (PtList xs) \<Longrightarrow> decides V w V (tn s n) (P n)"
  shows "decides V w V (node_list tn sctx xs) (list_all P xs)"
proof -
  have "decides V w V (seqs_sep True (push '','') (map (tn s) xs)) (list_all P xs)" for s
    by (rule dec_seqs_sep [OF dec_push]) (simp add: assms subnodes_def)
  then show ?thesis
    unfolding node_list_def
    by (intro dec_lazyness dec_list [where bs = "[True, list_all P xs, True]"]) (simp_all add: dec_push)
qed

lemma dec_or_default:
  assumes "\<And>s n. n \<in> subnodes (PtOrDefault i d) \<Longrightarrow> decides V w V (tn s n) (P n)"
  shows "decides V w V (node_or_default tn sctx r i d) (req P i \<and> req P d)"
proof -
  have "decides V w V (rtv tn s r x t) (req P x)" if "x \<in> {i, d}" for s x t
    using that by (auto intro!: dec_rtv assms simp: subnodes_def)
  then show ?thesis
    unfolding node_or_default_def
    by (intro dec_lazyness dec_list [where bs = "[True, req P i, True, req P d, True]"]) (simp_all add: dec_push)
qed

lemma dec_select:
  assumes tn: "\<And>s n. n \<in> subnodes (PtSelect x i) \<Longrightarrow> decides V w V (tn s n) (P n)"
  shows "decides V w V (node_select E tn sctx r x i) (req P x \<and> req (key_ok P) i)"
proof (cases "i = None \<or> x = None")
  case True
  then show ?thesis by (cases i) (auto simp: node_select_def req_def dec_throw)
next
  case False
  then obtain k n where kn: "i = Some k" "x = Some n" by auto
  have "decides V w V (seqs [tn s n, translate_node_key_element_indexing E tn k]) (P n \<and> key_ok P k)" for s
    using tn by (intro dec_list [where bs = "[P n, key_ok P k]"])
      (simp_all add: dec_key_indexing subnodes_def kn)
  then have "decides V w V (node_select E tn sctx r (Some n) (Some k)) (True \<and> (P n \<and> key_ok P k))"
    unfolding node_select_def option.case Let_def by (intro dec_bind [OF dec_gets] dec_lazyness)
  then show ?thesis by (simp add: kn req_def)
qed

lemma dec_str_part:
  assumes "\<And>s n. n \<in> set_str_part p \<Longrightarrow> decides V w V (tn s n) (P n)"
  shows "decides V w V (str_part_action E tn p) (part_ok P p)"
proof (cases p)
  case (SpLiteral lit)
  then show ?thesis by (simp add: str_part_action_def part_ok_def dec_push)
next
  case (SpAst q x)
  then have "decides V w V (rtv tn s q x d) (req P x)" for s d
    by (intro dec_rtv assms) simp
  then show ?thesis
    unfolding str_part_action_def part_ok_def SpAst str_part.case
    by (intro dec_list [where bs = "[True, req P x, True]"]) (simp_all add: dec_push)
qed

lemma parts_ok_nonempty: "list_all (part_ok P) (filter nonempty_part ps) = list_all (part_ok P) ps"
proof -
  have "part_ok P p" if "\<not> nonempty_part p" for p using that by (cases p) (simp_all add: part_ok_def)
  then show ?thesis by (auto simp: list_all_iff)
qed

lemma dec_str:
  assumes "\<And>s n. n \<in> subnodes (PtStr ps) \<Longrightarrow> decides V w V (tn s n) (P n)"
  shows "decides V w V (node_str E tn sctx ps) (list_all (part_ok P) ps)"
proof -
  have "decides V w V (str_part_action E tn p) (part_ok P p)" if "p \<in> set ps" for p
    using that by (intro dec_str_part assms) (auto simp: subnodes_def)
  then have "decides V w V (seqs_sep True (push ''+'') (map (str_part_action E tn) (filter nonempty_part ps)))
      (list_all (part_ok P) (filter nonempty_part ps))"
    by (intro dec_seqs_sep dec_push) auto
  then have "decides V w V (str_concat E tn sctx ps) (list_all (part_ok P) ps)"
    unfolding str_concat_def parts_ok_nonempty
    by (intro dec_lazyness dec_list [where bs = "[True, list_all (part_ok P) ps, True]"]) (simp_all add: dec_push)
  then show ?thesis
    by (auto simp: node_str_def part_ok_def dec_push split: list.splits str_part.splits)
qed

lemma dec_unaryop:
  assumes "\<And>s n. n \<in> subnodes (PtUnaryOp op x) \<Longrightarrow> decides V w V (tn s n) (P n)"
  shows "decides V w V (node_unaryop tn r op x) (req P x)"
proof -
  have "decides V w V (rtv tn s r x d) (req P x)" for s d
    by (auto intro!: dec_rtv assms simp: subnodes_def)
  then show ?thesis
    unfolding node_unaryop_def
    by (intro dec_list [where bs = "[True, req P x, True]"]) (simp_all add: dec_push)
qed

lemma dec_value: "decides V w V (node_value E r v) (case v of Inl _ \<Rightarrow> False | Inr _ \<Rightarrow> True)"
proof -
  have "decides V w V (throw (Panic msg)) True" for msg
    by (rule decidesI) (simp_all add: tm_simps)
  then show ?thesis
    by (auto simp: node_value_def dec_push dec_line_err split: sum.split nix_value.split option.split)
qed

lemma dec_with:
  assumes "\<And>w s n. n \<in> subnodes (PtWith ns b) \<Longrightarrow> decides V w V (tn s n) (A w n)"
  shows "decides V w V (node_with tn r ns b) (req (A w) ns \<and> req (A True) b)"
proof -
  have "decides V w V (rtv tn s r x d) (req (A w) x)" if "x \<in> {ns, b}" for w s x d
    using that by (auto intro!: dec_rtv assms simp: subnodes_def)
  then show ?thesis
    unfolding node_with_def
    by (intro dec_list [where bs = "[True, req (A True) b, True, req (A w) ns, True]"])
      (auto simp: dec_push intro: dec_in_with)
qed

section \<open>The recursion\<close>

lemma attrset_scope_recursive: "attrset_scope r = NIX_IN_SCOPE \<longleftrightarrow> r"
  by (cases r) (simp_all add: attrset_scope_def NIX_IN_SCOPE_def)

lemma dec_attrset:
  assumes "\<And>V s n. n \<in> subnodes (PtAttrSet r eh) \<Longrightarrow> decides V w V (tn s n) (A V n)"
    and "V' = (if r then V \<union> bound_names eh else V)"
  shows "decides V w V (translate_let E tn sctx True eh ExtractScope (attrset_scope r))
    (holder_ok (\<lambda>x. x \<in> V' \<or> w) (A V') eh)"
proof -
  have "decides V w V (translate_let E tn sctx True eh ExtractScope (attrset_scope r))
      (holder_ok (\<lambda>x. x \<in> V' \<or> w) (A V') eh \<and> body_ok (A V') ExtractScope)"
    by (rule dec_translate_let) (use assms in \<open>auto simp: subnodes_def attrset_scope_recursive\<close>)
  then show ?thesis by (simp add: body_ok_def)
qed

lemma dec_parsed:
  assumes tn: "\<And>V w s n. n \<in> subnodes p \<Longrightarrow> decides V w V (tn s n) (accepts V w n)"
    and m: "\<not> m_trivia m"
  shows "decides V w V (translate_parsed E tn sctx m p) (accepts V w (Node m p))"
proof -
  have inner: "decides V w V (rtv tn s r x d) (req (accepts V w) x)" if "set_option x \<subseteq> subnodes p" for s r x d
    using that by (intro dec_rtv tn) auto
  have panic: "decides V w V (throw (Panic msg)) b" for msg b
    by (rule decidesI) (simp_all add: tm_simps)
  show ?thesis
  proof (cases p)
    case (PtUnparsed k)
    have "decides V w V (bind (gets inp) (\<lambda>s. throw (g s))) (True \<and> False)" for g
      by (rule dec_bind [OF dec_gets dec_throw])
    with m show ?thesis by (simp add: PtUnparsed translate_parsed_def Let_def)
  next
    case (PtApply l v)
    with m dec_apply [OF tn [unfolded PtApply]] show ?thesis by (simp add: translate_parsed_def)
  next
    case (PtAssert x b)
    with m dec_assert [OF tn [unfolded PtAssert]] show ?thesis by (simp add: translate_parsed_def)
  next
    case (PtAttrSet r eh)
    let ?V' = "if r then V \<union> bound_names eh else V"
    have "decides V w V (translate_let E tn sctx True eh ExtractScope (attrset_scope r))
        (holder_ok (\<lambda>x. x \<in> ?V' \<or> w) (accepts ?V' w) eh)"
      by (rule dec_attrset [where A = "\<lambda>V. accepts V w"]) (use tn PtAttrSet in simp_all)
    moreover have "accepts V w (Node m p) = holder_ok (\<lambda>x. x \<in> ?V' \<or> w) (accepts ?V' w) eh"
      by (simp add: PtAttrSet m Let_def)
    ultimately show ?thesis by (simp only: PtAttrSet translate_parsed_def Let_def parsed_type.case)
  next
    case (PtBinOp op l r)
    with m dec_binop [OF tn [unfolded PtBinOp]] show ?thesis by (simp add: translate_parsed_def binop_ok_def)
  next
    case (PtIdent x)
    with m dec_void [OF dec_ident, of V w E "Some sctx" "Ident m x"] show ?thesis
      by (simp add: translate_parsed_def)
  next
    case (PtIfElse x a b)
    with m dec_ifelse [OF tn [unfolded PtIfElse]] show ?thesis by (simp add: translate_parsed_def)
  next
    case (PtInherit i)
    have "decides V w V (translate_node_inherit E tn sctx i (Some NIX_IN_SCOPE) None)
        (inh_ok (\<lambda>x. x \<in> V \<or> w) (accepts V w) i)"
      by (rule dec_inherit) (use tn in \<open>auto simp: PtInherit subnodes_def\<close>)
    with m show ?thesis by (simp add: PtInherit translate_parsed_def)
  next
    case (PtLambda a b)
    have "decides V w V (node_lambda E tn (m_rng m) (m_dbg m) a b) (lambda_ok (\<lambda>V. accepts V w) V a b)"
      by (rule dec_lambda) (use tn PtLambda in simp)
    with m show ?thesis by (simp add: PtLambda translate_parsed_def lambda_ok_def)
  next
    case (PtLegacyLet eh)
    have "decides V w V (node_legacy_let E tn sctx (m_rng m) eh)
        (legacy_body eh \<noteq> None \<and> holder_ok (\<lambda>x. x \<in> V \<union> bound_names eh \<or> w) (accepts (V \<union> bound_names eh) w) eh)"
      by (rule dec_legacy_let) (use tn in \<open>auto simp: PtLegacyLet subnodes_def\<close>)
    with m show ?thesis by (simp add: PtLegacyLet translate_parsed_def)
  next
    case (PtLetIn eh b)
    let ?V' = "V \<union> bound_names eh"
    have "decides V w V (node_let_in E tn sctx (m_rng m) eh b)
        (holder_ok (\<lambda>x. x \<in> ?V' \<or> w) (accepts ?V' w) eh \<and> req (accepts ?V' w) b)"
      by (rule dec_let_in) (use tn PtLetIn in simp_all)
    with m show ?thesis by (simp add: PtLetIn translate_parsed_def Let_def)
  next
    case (PtList l)
    with m dec_node_list [OF tn [unfolded PtList]] show ?thesis by (simp add: translate_parsed_def)
  next
    case (PtOrDefault i d)
    with m dec_or_default [OF tn [unfolded PtOrDefault]] show ?thesis by (simp add: translate_parsed_def)
  next
    case (PtSelect x i)
    with m dec_select [OF tn [unfolded PtSelect]] show ?thesis by (simp add: translate_parsed_def)
  next
    case (PtStr ps)
    with m dec_str [OF tn [unfolded PtStr]] show ?thesis by (simp add: translate_parsed_def)
  next
    case (PtUnaryOp op x)
    with m dec_unaryop [OF tn [unfolded PtUnaryOp]] show ?thesis by (simp add: translate_parsed_def)
  next
    case (PtValue v)
    with m dec_value show ?thesis by (simp add: translate_parsed_def)
  next
    case (PtWith ns b)
    have "decides V w V (node_with tn (m_rng m) ns b) (req (accepts V w) ns \<and> req (accepts V True) b)"
      by (rule dec_with) (use tn PtWith in simp)
    with m show ?thesis by (simp add: PtWith translate_parsed_def)
  qed (use m inner panic in \<open>simp_all add: translate_parsed_def subnodes_def\<close>)
qed

lemma dec_node: "decides V w V (translate_node E sctx n) (accepts V w n)"
proof (induction n arbitrary: V w sctx rule: node_subnodes_induct)
  case (Node m p)
  show ?case
  proof (cases "m_trivia m")
    case True
    then show ?thesis by (simp add: dec_ret del: accepts.simps) (simp add: dec_ret)
  next
    case False
    have "decides V w V (translate_node E sctx (Node m p)) (True \<and> accepts V w (Node m p))"
      using False dec_bind [OF dec_pos dec_parsed [OF Node False]] by (simp del: accepts.simps)
    then show ?thesis by simp
  qed
qed

section \<open>Properties\<close>

text \<open>C3: Translating a node succeeds exactly if the node passes the scoping check for the variables
  on the stack and the \<open>with\<close> depth at that point, and ends with an error exactly if it does not;
  a panic aside, nothing else is possible.\<close>

theorem translate_node_decides_scoping:
  "case translate_node E sctx n c of
     Inr _ \<Rightarrow> accepts (fst ` set (vars c)) (0 < with_stack c) n
   | Inl (Err _) \<Rightarrow> \<not> accepts (fst ` set (vars c)) (0 < with_stack c) n
   | Inl (Panic _) \<Rightarrow> True"
proof -
  have scope: "scope_of c = (fst ` set (vars c), 0 < with_stack c)" by (simp add: scope_of_def)
  show ?thesis
    using decides_Err [OF dec_node scope] decides_Inr [OF dec_node scope]
    by (auto split: sum.split fail.split)
qed

text \<open>An input is translatable if it parses, and its tree passes the check in the default scope.\<close>

definition translatable :: "('l, 'p) ext \<Rightarrow> string \<Rightarrow> bool" where
  "translatable E s \<longleftrightarrow>
     (case rnix_parse E s of (errs, root) \<Rightarrow> errs = [] \<and> accepts (fst ` set DFL_VARS) False root)"

text \<open>C4: \<open>translate\<close> returns code exactly for the translatable inputs and reports errors exactly for
  the others, unless it panics.\<close>

theorem translate_decides_scoping:
  "case translate E s nm of
     Translated _ _ \<Rightarrow> translatable E s
   | Errors _ \<Rightarrow> \<not> translatable E s
   | Panicked _ \<Rightarrow> True"
proof -
  obtain errs root where root: "rnix_parse E s = (errs, root)" by fastforce
  let ?run = "translate_node E (mksctx Nothing Want) root (init_ctx E s)"
  have scope: "scope_of (init_ctx E s) = (fst ` set DFL_VARS, False)"
    by (simp add: scope_of_def init_ctx_def)
  show ?thesis
  proof (cases ?run)
    case (Inl e)
    then show ?thesis
      using decides_Err [OF dec_node scope] root by (cases e) (auto simp: translate_def translatable_def)
  next
    case (Inr p)
    then show ?thesis
      using decides_Inr [OF dec_node scope, of E "mksctx Nothing Want" root] root
      by (cases p) (auto simp: translate_def translatable_def split: option.split)
  qed
qed

end
