(* ===== verification/Independence.thy ===== *)
theory Independence
  imports Frame_Instances
begin

text \<open>
  The code written for a node is a function of the node and its scope alone. Two runs of the
  translator that start with the same variables, \<open>with\<close> depth and input append the same text, or
  end with the same error, whatever has been written before and whatever the recorder of the
  source map does: output, mappings, name table, line cache and positions may differ, and so may
  the crates behind the recorder. Only a panic can end one of the runs early.
\<close>

section \<open>Runs side by side\<close>

definition same_scope :: "('l, 'p) ctx \<Rightarrow> ('m, 'q) ctx \<Rightarrow> bool" where
  "same_scope c d \<longleftrightarrow> inp c = inp d \<and> vars c = vars d \<and> with_stack c = with_stack d"

text \<open>The outcomes of two runs, started with the outputs \<open>a\<close> and \<open>b\<close>.\<close>

fun agree :: "string \<Rightarrow> string \<Rightarrow> fail + 'a \<times> ('l, 'p) ctx \<Rightarrow> fail + 'a \<times> ('m, 'q) ctx \<Rightarrow> bool" where
  "agree a b (Inr (x, c)) (Inr (y, d)) \<longleftrightarrow>
     x = y \<and> same_scope c d \<and> (\<exists>t. acc c = a @ t \<and> acc d = b @ t)"
| "agree a b (Inl (Err e)) (Inl (Err e')) \<longleftrightarrow> e = e'"
| "agree a b (Inl (Panic _)) _ \<longleftrightarrow> True"
| "agree a b _ (Inl (Panic _)) \<longleftrightarrow> True"
| "agree a b _ _ \<longleftrightarrow> False"

definition sim :: "('l, 'p, 'a) act \<Rightarrow> ('m, 'q, 'a) act \<Rightarrow> bool" where
  "sim m m' \<longleftrightarrow> (\<forall>c d. same_scope c d \<longrightarrow> agree (acc c) (acc d) (m c) (m' d))"

lemma simI: "(\<And>c d. same_scope c d \<Longrightarrow> agree (acc c) (acc d) (m c) (m' d)) \<Longrightarrow> sim m m'"
  by (simp add: sim_def)

lemma simD: "sim m m' \<Longrightarrow> same_scope c d \<Longrightarrow> agree (acc c) (acc d) (m c) (m' d)"
  by (simp add: sim_def)

lemma agree_panic [simp]: "agree a b r (Inl (Panic e))"
proof (cases r)
  case (Inl f)
  then show ?thesis by (cases f) simp_all
next
  case (Inr p)
  then show ?thesis by (cases p) simp
qed

lemma agree_cases:
  assumes "agree a b r r'"
  obtains e where "r = Inl (Panic e)" | e where "r' = Inl (Panic e)"
  | e where "r = Inl (Err e)" "r' = Inl (Err e)"
  | x c d t where "r = Inr (x, c)" "r' = Inr (x, d)" "same_scope c d" "acc c = a @ t" "acc d = b @ t"
  using assms by (cases "(a, b, r, r')" rule: agree.cases) auto

subsection \<open>Rules\<close>

lemma sim_ret: "sim (ret x) (ret x)"
  by (rule simI) (simp add: tm_simps)

lemma sim_throw: "sim (throw e) (throw e)"
  by (rule simI) (cases e; simp add: tm_simps)

lemma sim_push: "sim (push t) (push t)"
  by (rule simI) (simp add: tm_simps same_scope_def)

lemma sim_push_var: "sim (push_var vn categ) (push_var vn categ)"
  by (rule simI) (simp add: push_var_def tm_simps same_scope_def)

lemma sim_gets:
  fixes f :: "('l, 'p) ctx \<Rightarrow> 'a" and g :: "('m, 'q) ctx \<Rightarrow> 'a"
  shows "(\<And>c d. same_scope c d \<Longrightarrow> f c = g d) \<Longrightarrow> sim (gets f) (gets g)"
  by (rule simI) (simp add: tm_simps)

lemma sim_bind:
  fixes m :: "('l, 'p, 'a) act" and m' :: "('m, 'q, 'a) act"
  assumes "sim m m'" and "\<And>x. sim (f x) (f' x)"
  shows "sim (bind m f) (bind m' f')"
proof (rule simI)
  fix c :: "('l, 'p) ctx" and d :: "('m, 'q) ctx" assume "same_scope c d"
  with assms(1) have "agree (acc c) (acc d) (m c) (m' d)" by (rule simD)
  then show "agree (acc c) (acc d) (bind m f c) (bind m' f' d)"
  proof (cases rule: agree_cases)
    case (4 x c1 d1 t)
    with simD [OF assms(2)] have "agree (acc c1) (acc d1) (f x c1) (f' x d1)" by blast
    then show ?thesis by (cases rule: agree_cases) (use 4 in \<open>auto simp: bind_apply\<close>)
  qed (simp_all add: bind_apply)
qed

lemma sim_void: "sim m m' \<Longrightarrow> sim (void m) (void m')"
  unfolding void_def by (intro sim_bind sim_ret)

lemma sim_seqs_Nil: "sim (seqs []) (seqs [])"
  by (simp add: sim_ret)

lemma sim_seqs_Cons: "sim m m' \<Longrightarrow> sim (seqs ms) (seqs ms') \<Longrightarrow> sim (seqs (m # ms)) (seqs (m' # ms'))"
  by (simp add: sim_bind)

lemma sim_seqs_map: "(\<And>x. sim (f x) (f' x)) \<Longrightarrow> sim (seqs (map f xs)) (seqs (map f' xs))"
  by (induction xs) (simp_all add: sim_ret sim_bind)

lemma sim_seqs_sep:
  assumes "list_all2 sim ms ms'" "sim sep sep'"
  shows "sim (seqs_sep fi sep ms) (seqs_sep fi sep' ms')"
  using assms(1)
proof (induction arbitrary: fi)
  case (Cons m m' ms ms')
  then show ?case using assms(2) by (cases fi) (simp_all add: sim_bind sim_ret)
qed (simp add: sim_ret)

lemma sim_list_map: "(\<And>x. sim (f x) (f' x)) \<Longrightarrow> list_all2 sim (map f xs) (map f' xs)"
  by (simp add: list.rel_map list.rel_refl)

lemma sim_if: "sim a a' \<Longrightarrow> sim b b' \<Longrightarrow> sim (if P then a else b) (if P then a' else b')"
  by simp

lemma sim_option:
  "sim a a' \<Longrightarrow> (\<And>y. sim (b y) (b' y)) \<Longrightarrow>
   sim (case x of None \<Rightarrow> a | Some y \<Rightarrow> b y) (case x of None \<Rightarrow> a' | Some y \<Rightarrow> b' y)"
  by (cases x) simp_all

lemma sim_list:
  "sim a a' \<Longrightarrow> (\<And>y ys. sim (b y ys) (b' y ys)) \<Longrightarrow>
   sim (case x of [] \<Rightarrow> a | y # ys \<Rightarrow> b y ys) (case x of [] \<Rightarrow> a' | y # ys \<Rightarrow> b' y ys)"
  by (cases x) simp_all

lemma sim_prod: "(\<And>y z. sim (b y z) (b' y z)) \<Longrightarrow> sim (case x of (y, z) \<Rightarrow> b y z) (case x of (y, z) \<Rightarrow> b' y z)"
  by (cases x) simp

lemma sim_lazyness:
  "(\<And>s. sim (m s) (m' s)) \<Longrightarrow> sim (lazyness_incoming sctx at lt adj m) (lazyness_incoming sctx at lt adj m')"
  unfolding lazyness_incoming_eq by (intro sim_bind sim_push sim_ret)

text \<open>Code that reads back what it has written.\<close>

lemma sim_text:
  fixes m :: "('l, 'p, 'a) act" and m' :: "('m, 'q, 'a) act"
  assumes "sim m m'"
    and "\<And>r p c. f r p c = Inr (g r (drop p (acc c)), c)" "\<And>r p c. f' r p c = Inr (g r (drop p (acc c)), c)"
  shows "sim (bind (gets (\<lambda>c. length (acc c))) (\<lambda>p. bind m (\<lambda>r. f r p)))
    (bind (gets (\<lambda>c. length (acc c))) (\<lambda>p. bind m' (\<lambda>r. f' r p)))"
proof (rule simI)
  fix c :: "('l, 'p) ctx" and d :: "('m, 'q) ctx" assume "same_scope c d"
  with assms(1) have "agree (acc c) (acc d) (m c) (m' d)" by (rule simD)
  then show "agree (acc c) (acc d) (bind (gets (\<lambda>c. length (acc c))) (\<lambda>p. bind m (\<lambda>r. f r p)) c)
      (bind (gets (\<lambda>c. length (acc c))) (\<lambda>p. bind m' (\<lambda>r. f' r p)) d)"
    by (cases rule: agree_cases) (simp_all add: bind_apply tm_simps assms(2,3))
qed

lemma sim_scoped:
  fixes m :: "('l, 'p, unit) act" and m' :: "('m, 'q, unit) act"
  shows "sim m m' \<Longrightarrow> sim (scoped m) (scoped m')"
proof (rule simI)
  fix c :: "('l, 'p) ctx" and d :: "('m, 'q) ctx" assume "sim m m'" and cd: "same_scope c d"
  then have "agree (acc c) (acc d) (m c) (m' d)" by (rule simD)
  then show "agree (acc c) (acc d) (scoped m c) (scoped m' d)"
    using cd
    by (cases rule: agree_cases)
      (auto simp: scoped_def truncate_vars_def bind_apply tm_simps same_scope_def)
qed

lemma sim_in_with:
  fixes m :: "('l, 'p, unit) act" and m' :: "('m, 'q, unit) act"
  shows "sim m m' \<Longrightarrow> sim (in_with m) (in_with m')"
proof (rule simI)
  fix c :: "('l, 'p) ctx" and d :: "('m, 'q) ctx" assume m: "sim m m'" and cd: "same_scope c d"
  let ?up = "\<lambda>c. c\<lparr>with_stack := with_stack c + 1\<rparr>"
  have "agree (acc (?up c)) (acc (?up d)) (m (?up c)) (m' (?up d))"
    by (rule simD [OF m]) (use cd in \<open>simp add: same_scope_def\<close>)
  then show "agree (acc c) (acc d) (in_with m c) (in_with m' d)"
    by (cases rule: agree_cases) (auto simp: in_with_def bind_apply tm_simps same_scope_def)
qed

text \<open>The recorder: whatever it does, the text is the one between its snapshots.\<close>

interpretation silent: recorder_rel "\<lambda>c c'. acc c' = acc c \<and> same_scope c c'" E
  "\<lambda>_. True" "\<lambda>e. \<exists>msg. e = Panic msg" for E
  by unfold_locales (auto simp: same_scope_def)

definition quiet :: "('l, 'p, 'a) act \<Rightarrow> bool" where
  "quiet m \<longleftrightarrow> tm_rel (\<lambda>_. True) (\<lambda>c c'. acc c' = acc c \<and> same_scope c c') (\<lambda>e. \<exists>msg. e = Panic msg) m"

lemma quiet_cases:
  assumes "quiet m"
  obtains msg where "m c = Inl (Panic msg)"
  | x c' where "m c = Inr (x, c')" "acc c' = acc c" "same_scope c c'"
  using assms by (cases "m c") (auto simp: quiet_def dest: tm_rel_Inl tm_rel_Inr)

lemma same_scope_trans: "same_scope c c' \<Longrightarrow> same_scope c d \<Longrightarrow> same_scope c' d"
  by (simp add: same_scope_def)

lemma agree_same: "agree a b (Inr ((), c)) (Inr ((), d)) \<Longrightarrow> same_scope c c' \<Longrightarrow> same_scope d d' \<Longrightarrow>
  acc c' = acc c \<Longrightarrow> acc d' = acc d \<Longrightarrow> agree a b (Inr ((), c')) (Inr ((), d'))"
  by (auto simp: same_scope_def)

lemma sim_quiet_first:
  fixes q :: "('l, 'p, 'a) act" and q' :: "('m, 'q, 'b) act"
  assumes "quiet q" "quiet q'" and f: "\<And>x y. sim (f x) (f' y)"
  shows "sim (bind q f) (bind q' f')"
proof (rule simI)
  fix c :: "('l, 'p) ctx" and d :: "('m, 'q) ctx" assume cd: "same_scope c d"
  show "agree (acc c) (acc d) (bind q f c) (bind q' f' d)"
  proof (rule quiet_cases [OF assms(1), of c])
    fix x c' assume c': "q c = Inr (x, c')" "acc c' = acc c" "same_scope c c'"
    show ?thesis
    proof (rule quiet_cases [OF assms(2), of d])
      fix y d' assume d': "q' d = Inr (y, d')" "acc d' = acc d" "same_scope d d'"
      have "same_scope c' d'" using cd c' d' by (simp add: same_scope_def)
      with simD [OF f this] c' d' show ?thesis by (simp add: bind_apply)
    qed (simp add: bind_apply)
  qed (simp add: bind_apply)
qed

lemma quiet_pos: "quiet (snapshot_pos E n)"
  unfolding quiet_def by (rule silent.rec_pos)

lemma quiet_record: "quiet (record_name E r)"
  unfolding quiet_def by (rule silent.rec_record) simp

lemma quiet_skip: "quiet skip"
  unfolding quiet_def by (rule silent.rel_ret)

lemma sim_snapshot: "sim (snapshot_ident E r (push t)) (snapshot_ident E' r (push t))"
proof -
  have q: "quiet (if b then record_name E r else skip)" for b and E :: "('x, 'y) ext"
    by (cases b) (simp_all add: quiet_record quiet_skip)
  show ?thesis
    unfolding snapshot_ident_def
    by (rule sim_quiet_first [OF quiet_pos quiet_pos] sim_bind [OF sim_push] q sim_ret
      sim_quiet_first [OF q q])+
qed

lemmas sim_rules =
  sim_ret sim_throw sim_push sim_push_var sim_bind sim_void sim_seqs_Nil sim_seqs_Cons sim_seqs_map
  sim_seqs_sep sim_list_map sim_if sim_option sim_list sim_prod sim_lazyness sim_scoped sim_in_with
  sim_snapshot

section \<open>The methods\<close>

text \<open>
  Two sets of crates that agree on what occurs in code and messages. The recorder's crates,
  \<open>vlq\<close> and \<open>linetrack\<close>, and the parser are not mentioned.
\<close>

locale code_env =
  fixes E :: "('l, 'p) ext" and E' :: "('m, 'q) ext"
  assumes same_json: "json_to_string E = json_to_string E'"
    and same_f64: "number_from_f64 E = number_from_f64 E'"
    and same_debug: "range_debug E = range_debug E'"
begin

lemma same_texts:
  "escape_str E = escape_str E'" "index_text E = index_text E'" "ident_text E = ident_text E'"
proof -
  show "escape_str E = escape_str E'" by (simp add: fun_eq_iff escape_str_def same_json)
  then show idx: "index_text E = index_text E'" by (simp add: fun_eq_iff index_text_def)
  show "ident_text E = ident_text E'" by (intro ext) (simp add: ident_text_def idx split: ident_categ.split)
qed

lemma sim_line_err: "sim (line_err r msg :: ('l, 'p, 'a) act) (line_err r msg :: ('m, 'q, 'a) act)"
  unfolding line_err_def by (intro sim_bind sim_gets sim_throw) (simp add: same_scope_def)

lemma sim_escape_str: "sim (translate_node_ident_escape_str E i) (translate_node_ident_escape_str E' i)"
  unfolding translate_node_ident_escape_str_def Let_def same_texts by (intro sim_rules)

lemma sim_indexing: "sim (translate_node_ident_indexing E i) (translate_node_ident_indexing E' i)"
  unfolding translate_node_ident_indexing_def Let_def same_texts by (intro sim_rules)

lemma sim_handle_lazyness:
  assumes "sim (m :: ('l, 'p, unit) act) (m' :: ('m, 'q, unit) act)"
  shows "sim (handle_lazyness sctx m) (handle_lazyness sctx m')"
  unfolding handle_lazyness_def
  by (intro sim_option sim_lazyness sim_bind [OF assms] sim_ret sim_text [OF assms, where g = "\<lambda>_. Some"])
    (simp_all add: acc_from_def bind_apply tm_simps)

lemma sim_ident_raw:
  "sim (translate_node_ident_raw E sctx r vn categ) (translate_node_ident_raw E' sctx r vn categ)"
  unfolding translate_node_ident_raw_def Let_def same_texts
  by (intro sim_text [where g = "\<lambda>r t. case r of None \<Rightarrow> t | Some x \<Rightarrow> x"] sim_handle_lazyness sim_rules)
    (simp_all add: acc_from_def tm_simps split: option.split)

lemma sim_ident: "sim (translate_node_ident E sctx i) (translate_node_ident E' sctx i)"
proof -
  have "resolve_ident c i = resolve_ident d i" if "same_scope c d" for c :: "('l, 'p) ctx" and d :: "('m, 'q) ctx"
    using that by (simp add: resolve_ident_def same_scope_def split: option.split)
  moreover have "sim (case r of Inl e \<Rightarrow> throw (Err e) | Inr categ \<Rightarrow> translate_node_ident_raw E sctx (id_rng i) (as_str i) categ)
      (case r of Inl e \<Rightarrow> throw (Err e) | Inr categ \<Rightarrow> translate_node_ident_raw E' sctx (id_rng i) (as_str i) categ)" for r
    by (cases r) (simp_all add: sim_throw sim_ident_raw)
  ultimately show ?thesis unfolding translate_node_ident_def by (intro sim_bind sim_gets)
qed

lemmas sim_ids = sim_rules sim_line_err sim_escape_str sim_indexing sim_ident_raw sim_ident

end

text \<open>The methods that call \<open>translate_node\<close>: the two runs may use any two translations of nodes that agree.\<close>

locale code_step = code_env E E'
  for E :: "('l, 'p) ext" and E' :: "('m, 'q) ext" +
  fixes tn :: "stack_ctx \<Rightarrow> node \<Rightarrow> ('l, 'p, unit) act" and tn' :: "stack_ctx \<Rightarrow> node \<Rightarrow> ('m, 'q, unit) act"
  assumes tn: "sim (tn s n) (tn' s n)"
begin

lemma sim_rtv: "sim (rtv tn s r x d) (rtv tn' s r x d)"
  unfolding rtv_def using sim_line_err [of r "d @ '' missing''"] by (intro sim_option tn) (simp add: line_err_def)

lemma sim_force_str:
  "sim (translate_node_key_element_force_str E tn n) (translate_node_key_element_force_str E' tn' n)"
  unfolding translate_node_key_element_force_str_def by (intro sim_ids tn)

lemma sim_key_indexing:
  "sim (translate_node_key_element_indexing E tn n) (translate_node_key_element_indexing E' tn' n)"
  unfolding translate_node_key_element_indexing_def by (intro sim_ids tn)

lemma sim_scope_indexing:
  "sim (translate_node_scope_indexing E tn n sc) (translate_node_scope_indexing E' tn' n sc)"
  unfolding translate_node_scope_indexing_def by (intro sim_ids sim_key_indexing)

lemmas sim_keys = sim_ids sim_rtv tn sim_force_str sim_key_indexing sim_scope_indexing

lemma sim_kv: "sim (translate_node_kv E tn s k sc) (translate_node_kv E' tn' s k sc)"
  unfolding translate_node_kv_def by (intro sim_keys)

lemma sim_inherit_from_one: "sim (inherit_from_one E tn f i) (inherit_from_one E' tn' f i)"
  unfolding inherit_from_one_def by (intro sim_keys)

lemma sim_inherit: "sim (translate_node_inherit E tn s i sc u) (translate_node_inherit E' tn' s i sc u)"
  unfolding translate_node_inherit_def Let_def by (intro sim_keys sim_inherit_from_one)

lemma sim_object: "sim (let_object E tn s eh) (let_object E' tn' s eh)"
proof -
  have entry: "sim (let_object_entry E tn s k) (let_object_entry E' tn' s k)" for k
    unfolding let_object_entry_def by (intro sim_keys)
  have inh: "sim (let_object_inherit E tn s p) (let_object_inherit E' tn' s p)" for p
    unfolding let_object_inherit_def by (intro sim_keys sim_inherit_from_one)
  show ?thesis
    unfolding let_object_def by (intro sim_keys list_all2_appendI entry inh)
qed

lemma sim_let_entries: "sim (let_entries E tn s eh sc) (let_entries E' tn' s eh sc)"
  unfolding let_entries_def by (intro sim_keys sim_kv sim_inherit)

lemma sim_let_return: "sim (let_return tn b sc) (let_return tn' b sc)"
  unfolding let_return_def by (cases b) (simp_all only: let_body.case, (intro sim_keys)+)

lemma sim_declare: "sim (let_declare E p) (let_declare E' p)"
  unfolding let_declare_def by (intro sim_keys)

lemma sim_let: "sim (translate_let E tn s lz eh b sc) (translate_let E' tn' s lz eh b sc)"
proof -
  have "sim (let_vars E tn s eh b sc) (let_vars E' tn' s eh b sc)" for s
    unfolding let_vars_def by (intro sim_keys sim_declare sim_let_entries sim_let_return)
  moreover have "sim (let_scope E tn s eh b sc) (let_scope E' tn' s eh b sc)" for s
    unfolding let_scope_def by (intro sim_keys sim_let_entries sim_let_return)
  moreover have "sim (case b of LetNix b \<Rightarrow> tn s b | ExtractScope \<Rightarrow> push ''Object.create(null)'')
      (case b of LetNix b \<Rightarrow> tn' s b | ExtractScope \<Rightarrow> push ''Object.create(null)'')"
    by (cases b) (simp_all add: tn sim_push)
  ultimately show ?thesis
    unfolding translate_let_def Let_def by (intro sim_if sim_lazyness sim_object)
qed

lemma sim_lambda: "sim (node_lambda E tn r d a b) (node_lambda E' tn' r d a b)"
proof -
  have entries: "sim (pattern_entries g ps) (pattern_entries g ps)" for g ps
    by (induction ps) (simp_all only: pattern_entries.simps, (intro sim_rules | assumption)+)
  have entry: "sim (lambda_entry E tn x p) (lambda_entry E' tn' x p)" for x p
    unfolding lambda_entry_def by (intro sim_keys)
  have arg: "sim (lambda_argname E x) (lambda_argname E' x)" for x
    unfolding lambda_argname_def by (intro sim_keys)
  have "sim (lambda_pattern E tn r q b) (lambda_pattern E' tn' r q b)" for q
    unfolding lambda_pattern_def by (intro arg entries sim_keys entry)
  then show ?thesis
    unfolding node_lambda_def by (intro sim_keys)
qed

lemma sim_str: "sim (node_str E tn s ps) (node_str E' tn' s ps)"
proof -
  have "sim (str_part_action E tn p) (str_part_action E' tn' p)" for p
    unfolding str_part_action_def same_texts
    by (cases p) (simp_all only: str_part.case, (intro sim_keys)+)
  then have concat: "sim (str_concat E tn s ps) (str_concat E' tn' s ps)"
    unfolding str_concat_def by (intro sim_keys)
  then show ?thesis
    by (auto simp: node_str_def same_texts sim_push split: list.split str_part.split)
qed

lemma sim_select: "sim (node_select E tn s r x i) (node_select E' tn' s r x i)"
proof -
  have "is_wellknown c n = is_wellknown d n" if "same_scope c d" for c :: "('l, 'p) ctx" and d :: "('m, 'q) ctx" and n
    using that by (simp add: is_wellknown_def resolve_ident_def same_scope_def split: option.split)
  then show ?thesis
    unfolding node_select_def Let_def same_debug by (intro sim_gets sim_keys)
qed

lemma sim_binop: "sim (node_binop E tn s r op x y) (node_binop E' tn' s r op x y)"
proof (cases op)
  case None
  then show ?thesis by (simp add: node_binop_def sim_line_err)
next
  case (Some k)
  then show ?thesis
    unfolding node_binop_def by (cases k) (simp_all only: option.case binop_kind.case, (intro sim_keys)+)
qed

lemma sim_value: "sim (node_value E r v) (node_value E' r v)"
proof (cases v)
  case (Inl e)
  then show ?thesis by (simp add: node_value_def sim_line_err)
next
  case (Inr x)
  then show ?thesis
    by (cases x) (auto simp: node_value_def same_json same_f64 same_texts sim_push sim_throw split: option.split)
qed

lemma sim_assert: "sim (node_assert E tn s r x b) (node_assert E' tn' s r x b)"
  unfolding node_assert_def same_texts by (intro sim_keys sim_gets) (simp add: same_scope_def)

lemma sim_parsed: "sim (translate_parsed E tn s m p) (translate_parsed E' tn' s m p)"
proof -
  have unparsed: "sim (bind (gets inp) (\<lambda>s. throw (Err (f s)))) (bind (gets inp) (\<lambda>s. throw (Err (f s))))" for f
    by (intro sim_bind sim_gets sim_throw) (simp add: same_scope_def)
  have "sim (node_apply tn s r x y) (node_apply tn' s r x y)"
    "sim (node_ifelse tn s r x y z) (node_ifelse tn' s r x y z)"
    "sim (node_or_default tn s r x y) (node_or_default tn' s r x y)"
    "sim (node_unaryop tn r op x) (node_unaryop tn' r op x)"
    "sim (node_with tn r x y) (node_with tn' r x y)"
    "sim (node_list tn s xs) (node_list tn' s xs)" for s r x y z op xs
    unfolding node_apply_def node_ifelse_def node_or_default_def node_unaryop_def node_with_def node_list_def
    by (intro sim_keys)+
  moreover have "sim (node_legacy_let E tn s r eh) (node_legacy_let E' tn' s r eh)"
    "sim (node_let_in E tn s r eh b) (node_let_in E' tn' s r eh b)" for s r eh b
    unfolding node_legacy_let_def node_let_in_def by (intro sim_option sim_line_err sim_let)+
  ultimately show ?thesis
    by (cases p)
      (simp_all add: translate_parsed_def Let_def same_debug unparsed sim_assert sim_let sim_binop sim_rtv sim_throw
        sim_void sim_ident sim_inherit sim_lambda sim_select sim_str sim_value)
qed

end

section \<open>The recursion\<close>

text \<open>Results with the same code or the same errors, if there is a result.\<close>

fun same_result :: "translate_result \<Rightarrow> translate_result \<Rightarrow> bool" where
  "same_result (Panicked _) _ \<longleftrightarrow> True"
| "same_result _ (Panicked _) \<longleftrightarrow> True"
| "same_result (Translated js _) (Translated js' _) \<longleftrightarrow> js = js'"
| "same_result (Errors es) (Errors es') \<longleftrightarrow> es = es'"
| "same_result _ _ \<longleftrightarrow> False"

lemma same_result_panicked [simp]: "same_result r (Panicked msg)"
  by (cases r) simp_all

context code_env
begin

text \<open>
  Outside of the subnodes the translation is not called; replacing it there by a panic makes
  the induction hypothesis cover all nodes.
\<close>

lemma sim_node: "sim (translate_node E sctx n) (translate_node E' sctx n)"
proof (induction n arbitrary: sctx rule: node_subnodes_induct)
  case (Node m p)
  define t :: "stack_ctx \<Rightarrow> node \<Rightarrow> ('l, 'p, unit) act"
    where "t s x = (if x \<in> subnodes p then translate_node E s x else throw (Panic []))" for s x
  define t' :: "stack_ctx \<Rightarrow> node \<Rightarrow> ('m, 'q, unit) act"
    where "t' s x = (if x \<in> subnodes p then translate_node E' s x else throw (Panic []))" for s x
  have "code_step E E' t t'"
    by unfold_locales (simp add: t_def t'_def Node sim_throw)
  then have "sim (translate_parsed E t sctx m p) (translate_parsed E' t' sctx m p)"
    by (rule code_step.sim_parsed)
  moreover have "translate_parsed E t sctx m p = translate_parsed E (translate_node E) sctx m p"
    by (rule translate_parsed_cong) (simp_all add: t_def)
  moreover have "translate_parsed E' t' sctx m p = translate_parsed E' (translate_node E') sctx m p"
    by (rule translate_parsed_cong) (simp_all add: t'_def)
  ultimately show ?case by (simp add: sim_ret sim_quiet_first [OF quiet_pos quiet_pos])
qed

lemma same_code:
  assumes "rnix_parse E = rnix_parse E'"
  shows "same_result (translate E s nm) (translate E' s nm)"
proof -
  obtain errs root where root: "rnix_parse E' s = (errs, root)" by fastforce
  have "same_scope (init_ctx E s) (init_ctx E' s)" by (simp add: same_scope_def init_ctx_def)
  from simD [OF sim_node this, of "mksctx Nothing Want" root]
  show ?thesis
    by (cases rule: agree_cases) (auto simp: translate_def assms root init_ctx_def split: option.split)
qed

end

interpretation rerun: code_env E E for E
  by unfold_locales simp_all

interpretation rerun_step: code_step E E "translate_node E" "translate_node E" for E
  by unfold_locales (rule rerun.sim_node)

end
