(* ===== verification/Reference_Ext.thy ===== *)
theory Reference_Ext
  imports Rnix_View
begin

text \<open>
  What the development relies on in other crates, as interfaces, and functions
  that satisfy it: Base64 VLQ integers as the source map format defines them, JSON
  string literals, line and column counting. Theorems are stated for any functions
  with these properties; \<open>ref_ext\<close> shows that such functions exist and lets the
  theorems be applied to concrete inputs.
\<close>

section \<open>Variable-length quantities\<close>

text \<open>
  What a reader of the source map relies on: the digits of a number end by
  themselves, they are ASCII, and they are none of the separators.
\<close>

locale vlq_codec =
  fixes enc :: "int \<Rightarrow> string" and dec :: "string \<Rightarrow> (int \<times> string) option"
  assumes dec_enc: "dec (enc i @ s) = Some (i, s)"
    and enc_nonempty: "enc i \<noteq> []"
    and enc_ascii: "is_ascii (enc i)"
    and enc_sep: "c \<in> set (enc i) \<Longrightarrow> c \<noteq> CHR '';'' \<and> c \<noteq> CHR '',''"
begin

text \<open>A segment is read field by field; its length bounds the number of fields.\<close>

lemma dec_enc_Nil: "dec (enc i) = Some (i, [])"
  using dec_enc [of i "[]"] by simp

lemma enc_inj: "enc i = enc j \<Longrightarrow> i = j"
  by (metis dec_enc_Nil option.inject prod.inject)

end

text \<open>Reading all the fields of a segment; \<open>n\<close> bounds their number.\<close>

fun dec_fields :: "(string \<Rightarrow> (int \<times> string) option) \<Rightarrow> nat \<Rightarrow> string \<Rightarrow> int list option" where
  "dec_fields dec n [] = Some []"
| "dec_fields dec 0 (c # cs) = None"
| "dec_fields dec (Suc n) (c # cs) =
     (case dec (c # cs) of
        None \<Rightarrow> None
      | Some (i, s) \<Rightarrow> map_option (Cons i) (dec_fields dec n s))"

context vlq_codec
begin

lemma dec_fields_concat:
  "length is \<le> n \<Longrightarrow> dec_fields dec n (concat (map enc is)) = Some is"
proof (induction "is" arbitrary: n)
  case Nil
  then show ?case by (cases n) simp_all
next
  case (Cons i "is")
  then obtain k where n: "n = Suc k" by (cases n) auto
  obtain c cs where "enc i @ concat (map enc is) = c # cs"
    using enc_nonempty [of i] by (cases "enc i") auto
  then show ?case
    using Cons n dec_enc [of i "concat (map enc is)"] by auto
qed

end

subsection \<open>Base64 VLQ\<close>

definition b64_alphabet :: string where
  "b64_alphabet = ''ABCDEFGHIJKLMNOPQRSTUVWXYZabcdefghijklmnopqrstuvwxyz0123456789+/''"

fun b64_value :: "string \<Rightarrow> char \<Rightarrow> nat option" where
  "b64_value [] c = None"
| "b64_value (a # as) c = (if a = c then Some 0 else map_option Suc (b64_value as c))"

text \<open>Five bits a digit, least significant first; 32 marks a digit that is not the last.\<close>

fun vlq_digits :: "nat \<Rightarrow> nat list" where
  "vlq_digits n = (if n < 32 then [n] else (32 + n mod 32) # vlq_digits (n div 32))"

fun vlq_undigits :: "nat list \<Rightarrow> nat \<times> nat list" where
  "vlq_undigits [] = (0, [])"
| "vlq_undigits (d # ds) =
     (if d < 32 then (d, ds)
      else (case vlq_undigits ds of (n, r) \<Rightarrow> (d - 32 + 32 * n, r)))"

declare vlq_digits.simps [simp del]

definition vlq_sign :: "int \<Rightarrow> nat" where
  "vlq_sign i = (if 0 \<le> i then 2 * nat i else 2 * nat (- i) + 1)"

definition vlq_unsign :: "nat \<Rightarrow> int" where
  "vlq_unsign n = (if even n then int (n div 2) else - int (n div 2))"

definition ref_vlq :: "int \<Rightarrow> string" where
  "ref_vlq i = map ((!) b64_alphabet) (vlq_digits (vlq_sign i))"

text \<open>Take the digits up to the first that is not marked, and read them.\<close>

fun vlq_take :: "string \<Rightarrow> (nat list \<times> string) option" where
  "vlq_take [] = None"
| "vlq_take (c # cs) =
     (case b64_value b64_alphabet c of
        None \<Rightarrow> None
      | Some d \<Rightarrow>
          if d < 32 then Some ([d], cs)
          else map_option (\<lambda>(ds, r). (d # ds, r)) (vlq_take cs))"

definition ref_unvlq :: "string \<Rightarrow> (int \<times> string) option" where
  "ref_unvlq s = map_option (\<lambda>(ds, r). (vlq_unsign (fst (vlq_undigits ds)), r)) (vlq_take s)"

lemma vlq_unsign_sign: "vlq_unsign (vlq_sign i) = i"
  by (auto simp: vlq_unsign_def vlq_sign_def)

lemma vlq_digits_bound: "d \<in> set (vlq_digits n) \<Longrightarrow> d < 64"
proof (induction n rule: vlq_digits.induct)
  case (1 n)
  show ?case
  proof (cases "n < 32")
    case True
    then show ?thesis using 1 by (simp add: vlq_digits.simps [of n])
  next
    case False
    then consider "d = 32 + n mod 32" | "d \<in> set (vlq_digits (n div 32))"
      using "1.prems" by (auto simp: vlq_digits.simps [of n])
    then show ?thesis
    proof cases
      case 1
      then show ?thesis by (simp add: mod_less_divisor [of 32 n, simplified])
    next
      case 2
      with False "1.IH" show ?thesis by simp
    qed
  qed
qed

lemma vlq_undigits_digits: "vlq_undigits (vlq_digits n) = (n, [])"
proof (induction n rule: vlq_digits.induct)
  case (1 n)
  then show ?case by (cases "n < 32") (simp_all add: vlq_digits.simps [of n])
qed

lemma b64_value_nth: "d < 64 \<Longrightarrow> b64_value b64_alphabet (b64_alphabet ! d) = Some d"
proof -
  have "b64_value xs (xs ! d) = Some d" if "distinct xs" "d < length xs" for xs d
    using that by (induction xs arbitrary: d) (auto simp: nth_Cons split: nat.split)
  moreover have "distinct b64_alphabet" "length b64_alphabet = 64"
    by (simp_all add: b64_alphabet_def)
  ultimately show "d < 64 \<Longrightarrow> ?thesis" by simp
qed

lemma vlq_take_digits:
  "vlq_take (map ((!) b64_alphabet) (vlq_digits n) @ s) = Some (vlq_digits n, s)"
proof (induction n rule: vlq_digits.induct)
  case (1 n)
  have "32 + n mod 32 < 64" by (simp add: mod_less_divisor [of 32 n, simplified])
  then show ?case
    using 1 by (cases "n < 32") (simp_all add: vlq_digits.simps [of n] b64_value_nth)
qed

lemma b64_alphabet_chars:
  "d < 64 \<Longrightarrow> (of_char (b64_alphabet ! d) :: nat) < 128 \<and>
     b64_alphabet ! d \<noteq> CHR '';'' \<and> b64_alphabet ! d \<noteq> CHR '',''"
proof -
  have "list_all (\<lambda>c. (of_char c :: nat) < 128 \<and> c \<noteq> CHR '';'' \<and> c \<noteq> CHR '','') b64_alphabet"
    by (simp add: b64_alphabet_def)
  moreover have "length b64_alphabet = 64" by (simp add: b64_alphabet_def)
  ultimately show "d < 64 \<Longrightarrow> ?thesis" by (auto simp: list_all_length)
qed

interpretation ref_codec: vlq_codec ref_vlq ref_unvlq
proof
  show "ref_unvlq (ref_vlq i @ s) = Some (i, s)" for i s
    by (simp add: ref_unvlq_def ref_vlq_def vlq_take_digits vlq_undigits_digits vlq_unsign_sign)
  show "ref_vlq i \<noteq> []" for i
    by (simp add: ref_vlq_def vlq_digits.simps)
  show "is_ascii (ref_vlq i)" for i
    by (auto simp: is_ascii_def ref_vlq_def dest!: vlq_digits_bound b64_alphabet_chars)
  show "c \<noteq> CHR '';'' \<and> c \<noteq> CHR '',''" if "c \<in> set (ref_vlq i)" for c i
    using that by (auto simp: ref_vlq_def dest!: vlq_digits_bound b64_alphabet_chars)
qed


section \<open>JSON text\<close>

text \<open>Escapes of a JSON string: quote, backslash and control characters.\<close>

definition hex_digit :: "nat \<Rightarrow> char" where
  "hex_digit n = ''0123456789abcdef'' ! n"

definition json_escape :: "char \<Rightarrow> string" where
  "json_escape c =
     (if c = CHR 0x22 then [CHR 0x5C, CHR 0x22]
      else if c = CHR 0x5C then [CHR 0x5C, CHR 0x5C]
      else if c = CHR 0x0A then [CHR 0x5C, CHR ''n'']
      else if (of_char c :: nat) < 32
      then [CHR 0x5C, CHR ''u'', CHR ''0'', CHR ''0'',
            hex_digit (of_char c div 16), hex_digit (of_char c mod 16)]
      else [c])"

definition json_string :: "string \<Rightarrow> string" where
  "json_string s = [CHR 0x22] @ concat (map json_escape s) @ [CHR 0x22]"

definition show_int :: "int \<Rightarrow> string" where
  "show_int i = (if i < 0 then ''-'' @ show_nat (nat (- i)) else show_nat (nat i))"

text \<open>The text of a float is left at a fixed numeral.\<close>

fun ref_json :: "json \<Rightarrow> string" where
  "ref_json (JNumber (JsInt i)) = show_int i"
| "ref_json (JNumber (JsFloat f)) = ''0.0''"
| "ref_json (JString s) = json_string s"
| "ref_json (JArray xs) = ''['' @ join '','' (map ref_json xs) @ '']''"
| "ref_json (JObject kvs) =
     ''{'' @ join '','' (map (\<lambda>(k, v). json_string k @ '':'' @ ref_json v) kvs) @ ''}''"


section \<open>Positions\<close>

definition count_nl :: "string \<Rightarrow> nat" where
  "count_nl s = length (filter (\<lambda>c. c = CHR 0x0A) s)"

text \<open>Line and column of an offset, both from 0; the column counts bytes.\<close>

definition line_col :: "string \<Rightarrow> nat \<times> nat" where
  "line_col s = (count_nl s, length (takeWhile (\<lambda>c. c \<noteq> CHR 0x0A) (rev s)))"

text \<open>The tracker remembers an offset and reports the move to the next one.\<close>

definition ref_update :: "nat \<Rightarrow> string \<Rightarrow> nat \<Rightarrow> (int \<times> int) option \<times> nat" where
  "ref_update old dat new =
     (if old \<le> new \<and> new \<le> length dat then
        (case line_col (take (new - old) (drop old dat)) of
           (l, c) \<Rightarrow> (Some (int l, int c), new))
      else (None, old))"

definition ref_ext :: "node \<Rightarrow> (string, nat) ext" where
  "ref_ext root =
     \<lparr>json_to_string = ref_json,
      number_from_f64 = (\<lambda>f. Some (JsFloat f)),
      vlq_encode = ref_vlq,
      lc_new = (\<lambda>s. s),
      lc_run = (\<lambda>s n. (line_col (take n s), s)),
      pt_default = 0,
      pt_update = ref_update,
      range_debug = (\<lambda>(a, b). show_nat a @ ''..'' @ show_nat b),
      rnix_parse = (\<lambda>s. ([], root)),
      base64_encode = (\<lambda>s. s)\<rparr>"

end
