(* ===== verification/Lexing.thy ===== *)
theory Lexing
  imports Frame_Instances Reference_Ext
begin

text \<open>
  The generated JavaScript is lexically well-formed: on one line, with every string
  literal closed and every bracket matched by its partner, and with no slash
  outside of a string, so no comment can start.
\<close>

section \<open>The scanner\<close>

definition is_open :: "char \<Rightarrow> bool" where
  "is_open c \<longleftrightarrow> c = CHR ''('' \<or> c = CHR ''['' \<or> c = CHR ''{''"

definition is_close :: "char \<Rightarrow> bool" where
  "is_close c \<longleftrightarrow> c = CHR '')'' \<or> c = CHR '']'' \<or> c = CHR ''}''"

definition closer :: "char \<Rightarrow> char" where
  "closer c = (if c = CHR ''('' then CHR '')'' else if c = CHR ''['' then CHR '']'' else CHR ''}'')"

text \<open>Double quote, single quote and backquote.\<close>

definition is_quote :: "char \<Rightarrow> bool" where
  "is_quote c \<longleftrightarrow> c = CHR 0x22 \<or> c = CHR 0x27 \<or> c = CHR 0x60"

text \<open>
  The scanner is outside of strings, in a string with the given quote, or behind a
  backslash in such a string. \<open>scan l st s\<close> reads \<open>s\<close> with the stack \<open>st\<close> of the closing
  brackets that are due, and returns the stack at the end; \<open>None\<close> is a lexical error or
  an end inside of a string.
\<close>

datatype lexer = Code | InStr char | Escaped char

fun scan :: "lexer \<Rightarrow> char list \<Rightarrow> string \<Rightarrow> char list option" where
  "scan Code st [] = Some st"
| "scan (InStr q) st [] = None"
| "scan (Escaped q) st [] = None"
| "scan Code st (c # cs) =
     (if is_open c then scan Code (closer c # st) cs
      else if is_close c then
        (case st of [] \<Rightarrow> None | d # st' \<Rightarrow> if d = c then scan Code st' cs else None)
      else if is_quote c then scan (InStr c) st cs
      else if c = CHR 0x0A \<or> c = CHR ''/'' then None
      else scan Code st cs)"
| "scan (InStr q) st (c # cs) =
     (if c = CHR 0x0A then None
      else if c = CHR 0x5C then scan (Escaped q) st cs
      else if c = q then scan Code st cs
      else scan (InStr q) st cs)"
| "scan (Escaped q) st (c # cs) = (if c = CHR 0x0A then None else scan (InStr q) st cs)"

definition js_balanced :: "string \<Rightarrow> bool" where
  "js_balanced s \<longleftrightarrow> scan Code [] s = Some []"

lemma scan_append: "scan q st s = Some st' \<Longrightarrow> scan q st (s @ t) = scan Code st' t"
  by (induction q st s arbitrary: st' rule: scan.induct) (auto split: if_splits list.splits)

text \<open>
  \<open>bal s\<close>: reading \<open>s\<close> outside of strings leaves any stack as it is. The definition is
  shaped so that the simplifier runs the scanner over concatenations.
\<close>

definition bal :: "string \<Rightarrow> bool" where
  "bal s \<longleftrightarrow> (\<forall>st t. scan Code st (s @ t) = scan Code st t)"

lemma balI: "(\<And>st. scan Code st s = Some st) \<Longrightarrow> bal s"
  by (simp add: bal_def scan_append)

lemma balD: "bal s \<Longrightarrow> scan Code st (s @ t) = scan Code st t"
  by (simp add: bal_def)

lemma bal_Nil [simp]: "bal []"
  by (simp add: bal_def)

lemma bal_append: "bal s \<Longrightarrow> bal t \<Longrightarrow> bal (s @ t)"
  by (simp add: bal_def)

lemma bal_js_balanced: "bal s \<Longrightarrow> js_balanced s"
  using balD [of s "[]" "[]"] by (simp add: js_balanced_def)

lemma scan_one_line: "scan q st s = Some st' \<Longrightarrow> CHR 0x0A \<notin> set s"
  by (induction q st s arbitrary: st' rule: scan.induct) (auto simp: is_open_def is_close_def is_quote_def split: if_splits list.splits)

lemma js_balanced_one_line: "js_balanced s \<Longrightarrow> c \<in> set s \<Longrightarrow> c \<noteq> CHR 0x0A"
  using scan_one_line by (auto simp: js_balanced_def)

text \<open>Text without any character the scanner reacts to.\<close>

definition plain_char :: "char \<Rightarrow> bool" where
  "plain_char c \<longleftrightarrow> \<not> is_open c \<and> \<not> is_close c \<and> \<not> is_quote c \<and> c \<noteq> CHR 0x0A \<and> c \<noteq> CHR ''/''"

definition plain :: "string \<Rightarrow> bool" where
  "plain s \<longleftrightarrow> list_all plain_char s"

lemma plain_simps [simp]:
  "plain []" "plain (c # s) \<longleftrightarrow> plain_char c \<and> plain s" "plain (s @ t) \<longleftrightarrow> plain s \<and> plain t"
  by (auto simp: plain_def)

lemma bal_plain: "plain s \<Longrightarrow> bal s"
proof (rule balI)
  show "plain s \<Longrightarrow> scan Code st s = Some st" for st
    by (induction s) (auto simp: plain_char_def)
qed

lemmas lex_defs = is_open_def is_close_def is_quote_def closer_def plain_char_def

section \<open>What the other crates and the tree contribute\<close>

text \<open>
  A JSON string is one JavaScript string literal in double quotes; a JSON number
  has no quote, bracket, slash or newline.
\<close>

definition json_lexical :: "('l, 'p) ext \<Rightarrow> bool" where
  "json_lexical E \<longleftrightarrow>
     (\<forall>s st. scan Code st (json_to_string E (JString s)) = Some st) \<and>
     (\<forall>n. plain (json_to_string E (JNumber n)))"

text \<open>
  Names: letters, digits, underscore, minus and apostrophe. \<open>__foldl'\<close> is excluded, see
  \<open>foldl_breaks_lexing\<close>.
\<close>

definition nix_ident_char :: "char \<Rightarrow> bool" where
  "nix_ident_char c \<longleftrightarrow>
     is_ascii_alphanumeric c \<or> c = CHR ''_'' \<or> c = CHR ''-'' \<or> c = CHR 0x27"

definition foldl_name :: string where
  "foldl_name = ''__foldl'' @ [CHR 0x27]"

definition name_ok :: "string \<Rightarrow> bool" where
  "name_ok s \<longleftrightarrow> list_all nix_ident_char s \<and> s \<noteq> foldl_name"

fun lex_ok :: "node \<Rightarrow> bool" where
  "lex_ok (Node m p) \<longleftrightarrow>
     (case p of PtIdent s \<Rightarrow> name_ok s | PtBinOp (Some (BinOther op)) _ _ \<Rightarrow> plain op | _ \<Rightarrow> True) \<and>
     (\<forall>i \<in> own_idents p. name_ok (as_str i)) \<and>
     (\<forall>x \<in> subnodes p. lex_ok x)"

text \<open>The variables in scope are rendered by plain text, \<open>__foldl'\<close> apart.\<close>

definition categ_ok :: "string \<Rightarrow> ident_categ \<Rightarrow> bool" where
  "categ_ok vn categ =
     (case categ of
        Literal lit \<Rightarrow> plain lit
      | AlBuiltin b \<Rightarrow> plain b \<or> vn = foldl_name
      | _ \<Rightarrow> True)"

definition vars_ok :: "('l, 'p) ctx \<Rightarrow> bool" where
  "vars_ok c \<longleftrightarrow> (\<forall>(vn, categ) \<in> set (vars c). categ_ok vn categ)"

lemma DFL_VARS_ok: "list_all (\<lambda>(vn, categ). categ_ok vn categ) DFL_VARS"
  by code_simp

lemma lookup_var_mem: "lookup_var vs vn = Some categ \<Longrightarrow> (vn, categ) \<in> set vs"
  by (auto simp: lookup_var_def find_Some_iff) (metis length_rev nth_mem set_rev)


section \<open>Emission\<close>

text \<open>
  \<open>emits pre m suf\<close>: what \<open>m\<close> writes, put between \<open>pre\<close> and \<open>suf\<close>, is balanced. \<open>pre\<close> collects the
  brackets that the statements before \<open>m\<close> have left open.
\<close>

definition emits :: "string \<Rightarrow> ('l, 'p, 'a) act \<Rightarrow> string \<Rightarrow> bool" where
  "emits pre m suf \<longleftrightarrow>
     (\<forall>c a c'. vars_ok c \<longrightarrow> m c = Inr (a, c') \<longrightarrow>
        vars_ok c' \<and> (\<exists>s. acc c' = acc c @ s \<and> bal (pre @ s @ suf)))"

definition opens :: "string \<Rightarrow> bool" where
  "opens pre \<longleftrightarrow> (\<forall>st. \<exists>st'. scan Code st pre = Some st')"

lemma emitsI:
  assumes "\<And>c a c'. vars_ok c \<Longrightarrow> m c = Inr (a, c') \<Longrightarrow>
    vars_ok c' \<and> (\<exists>s. acc c' = acc c @ s \<and> bal (pre @ s @ suf))"
  shows "emits pre m suf"
  using assms by (auto simp: emits_def)

lemma emitsE:
  assumes "emits pre m suf" "m c = Inr (a, c')" "vars_ok c"
  obtains s where "vars_ok c'" "acc c' = acc c @ s" "bal (pre @ s @ suf)"
  using assms unfolding emits_def by blast

lemma bal_insert: "opens pre \<Longrightarrow> bal s \<Longrightarrow> bal (pre @ t) \<Longrightarrow> bal (pre @ s @ t)"
proof (rule balI)
  fix st assume pre: "opens pre" and s: "bal s" and t: "bal (pre @ t)"
  obtain st' where st': "scan Code st pre = Some st'" using pre by (auto simp: opens_def)
  have "scan Code st (pre @ s @ t) = scan Code st' (s @ t)" by (rule scan_append [OF st'])
  also have "\<dots> = scan Code st (pre @ t)" by (simp add: balD [OF s] scan_append [OF st'])
  also have "\<dots> = Some st" using balD [OF t, of st "[]"] by simp
  finally show "scan Code st (pre @ s @ t) = Some st" .
qed

lemma emits_push: "bal (pre @ x @ suf) \<Longrightarrow> emits pre (push x) suf"
  by (rule emitsI) (auto simp: tm_simps vars_ok_def)

lemma emits_ret: "bal (pre @ suf) \<Longrightarrow> emits pre (ret x) suf"
  by (rule emitsI) (auto simp: tm_simps)

lemma emits_throw: "emits pre (throw e) suf"
  by (rule emitsI) (auto simp: tm_simps)

lemma emits_if:
  "(b \<Longrightarrow> emits pre m suf) \<Longrightarrow> (\<not> b \<Longrightarrow> emits pre m' suf) \<Longrightarrow> emits pre (if b then m else m') suf"
  by simp

lemma emits_bind_push: "emits (pre @ x) (f ()) suf \<Longrightarrow> emits pre (bind (push x) f) suf"
  by (rule emitsI) (fastforce simp: bind_eq_Inr tm_simps vars_ok_def elim!: emitsE)

lemma emits_bind_gets: "(\<And>x. emits pre (f x) suf) \<Longrightarrow> emits pre (bind (gets g) f) suf"
  by (rule emitsI) (auto simp: bind_eq_Inr tm_simps elim: emitsE)

lemma emits_bind_res:
  assumes "opens pre" "emits [] m []" "\<And>a c c'. m c = Inr (a, c') \<Longrightarrow> vars_ok c \<Longrightarrow> emits pre (f a) suf"
  shows "emits pre (bind m f) suf"
proof (rule emitsI)
  fix c b c'' assume c: "vars_ok c" "bind m f c = Inr (b, c'')"
  then obtain a c' where m: "m c = Inr (a, c')" and f: "f a c' = Inr (b, c'')"
    by (auto simp: bind_eq_Inr)
  from emitsE [OF assms(2) m c(1)] obtain s
    where s: "vars_ok c'" "acc c' = acc c @ s" "bal s" by auto
  from emitsE [OF assms(3) [OF m c(1)] f s(1)] obtain s'
    where s': "vars_ok c''" "acc c'' = acc c' @ s'" "bal (pre @ s' @ suf)" .
  then show "vars_ok c'' \<and> (\<exists>s. acc c'' = acc c @ s \<and> bal (pre @ s @ suf))"
    using s bal_insert [OF assms(1) s(3), of "s' @ suf"] by auto
qed

lemma emits_bind:
  "opens pre \<Longrightarrow> emits [] m [] \<Longrightarrow> (\<And>a. emits pre (f a) suf) \<Longrightarrow> emits pre (bind m f) suf"
  by (rule emits_bind_res)

lemma emits_bind_last: "emits pre m (x @ suf) \<Longrightarrow> emits pre (bind m (\<lambda>_. push x)) suf"
  by (rule emitsI) (auto simp: bind_eq_Inr tm_simps vars_ok_def elim!: emitsE)

lemma emits_void: "emits pre m suf \<Longrightarrow> emits pre (void m) suf"
  by (rule emitsI) (auto simp: void_def bind_eq_Inr tm_simps elim: emitsE)

lemma emits_last: "opens pre \<Longrightarrow> bal (pre @ suf) \<Longrightarrow> emits [] m [] \<Longrightarrow> emits pre m suf"
  by (rule emitsI) (force elim: emitsE dest: bal_insert)

lemma emits_scoped: "emits pre m suf \<Longrightarrow> emits pre (scoped m) suf"
proof (rule emitsI)
  fix c a c'' assume m: "emits pre m suf" and c: "vars_ok c" "scoped m c = Inr (a, c'')"
  then obtain c' where c': "m c = Inr ((), c')" "c'' = c'\<lparr>vars := take (length (vars c)) (vars c')\<rparr>"
    by (auto simp: scoped_def truncate_vars_def bind_eq_Inr bind_eq_Inl tm_simps split: if_splits)
  from emitsE [OF m c'(1) c(1)] show "vars_ok c'' \<and> (\<exists>s. acc c'' = acc c @ s \<and> bal (pre @ s @ suf))"
    by (auto simp: c' vars_ok_def dest: in_set_takeD)
qed

lemma emits_push_var:
  "categ_ok vn categ \<Longrightarrow> emits [] (push_var vn categ) []"
  by (rule emitsI) (auto simp: push_var_def tm_simps vars_ok_def)

lemma emits_modify_with: "emits [] (modify (\<lambda>c. c\<lparr>with_stack := f c\<rparr>)) []"
  by (rule emitsI) (auto simp: tm_simps vars_ok_def)

lemma opens_Nil [simp]: "opens []"
  by (simp add: opens_def)

lemma emits_seqs: "(\<And>m. m \<in> set ms \<Longrightarrow> emits [] m []) \<Longrightarrow> emits [] (seqs ms) []"
  by (induction ms) (auto intro!: emits_ret emits_bind)

lemma emits_seqs_sep:
  "(\<And>m. m \<in> set ms \<Longrightarrow> emits [] m []) \<Longrightarrow> emits [] sep [] \<Longrightarrow> emits [] (seqs_sep fi sep ms) []"
  by (induction ms arbitrary: fi) (auto intro!: emits_ret emits_bind)

text \<open>The wrapper of \<open>lazyness_incoming\<close> is balanced around balanced text.\<close>

lemma bal_lazy: "bal s \<Longrightarrow> bal (lazy_open sctx at lt adj @ s @ lazy_close sctx at lt adj)"
  unfolding bal_def by (simp add: lazy_open_def lazy_close_def lex_defs)

lemma emits_lazyness:
  assumes "\<And>s. emits [] (m s) []"
  shows "emits [] (lazyness_incoming sctx at lt adj m) []"
proof (rule emitsI)
  fix c a c' assume "vars_ok c" "lazyness_incoming sctx at lt adj m c = Inr (a, c')"
  then obtain c1 where c1: "m (lazy_inner sctx at lt adj) (c\<lparr>acc := acc c @ lazy_open sctx at lt adj\<rparr>) = Inr (a, c1)"
    and c': "c' = c1\<lparr>acc := acc c1 @ lazy_close sctx at lt adj\<rparr>"
    and ok: "vars_ok (c\<lparr>acc := acc c @ lazy_open sctx at lt adj\<rparr>)"
    by (auto simp: lazyness_incoming_eq bind_eq_Inr tm_simps vars_ok_def)
  from emitsE [OF assms c1 ok] obtain s where "vars_ok c1" "bal s"
    "acc c1 = acc c @ lazy_open sctx at lt adj @ s" by auto
  then show "vars_ok c' \<and> (\<exists>s. acc c' = acc c @ s \<and> bal ([] @ s @ []))"
    using bal_lazy [of s sctx at lt adj] by (auto simp: c' vars_ok_def)
qed

text \<open>The recorder writes nothing to the output.\<close>

interpretation quiet: recorder_rel "\<lambda>c c'. acc c' = acc c \<and> vars c' = vars c" E
    "\<lambda>_. True" "\<lambda>_. True" for E :: "('l, 'p) ext"
  by unfold_locales simp_all

lemma emits_quiet:
  "(\<And>c x c'. m c = Inr (x, c') \<Longrightarrow> acc c' = acc c \<and> vars c' = vars c) \<Longrightarrow> emits [] m []"
  by (rule emitsI) (auto simp: vars_ok_def)

lemma emits_snapshot_pos: "emits [] (snapshot_pos E n) []"
  using tm_rel_Inr [OF quiet.rec_pos [of E n]] by (intro emits_quiet) simp

lemma emits_record_name: "emits [] (record_name E r) []"
proof (rule emits_quiet)
  have *: "tm_rel (\<lambda>_. True) (\<lambda>c c'. acc c' = acc c \<and> vars c' = vars c) (\<lambda>_. True) (record_name E r)"
    by (rule quiet.rec_record) simp
  show "acc c' = acc c \<and> vars c' = vars c" if "record_name E r c = Inr (x, c')" for c x c'
    using tm_rel_Inr [OF * that] by simp
qed

lemma emits_snapshot_ident: "emits [] m [] \<Longrightarrow> emits [] (snapshot_ident E r m) []"
  unfolding snapshot_ident_def
  by (auto intro!: emits_bind emits_snapshot_pos emits_ret emits_record_name)


end
