(* ===== verification/Brackets.thy ===== *)
theory Brackets
  imports Lexing
begin

text \<open>
  Every method of the translator writes balanced text, and so does \<open>translate\<close>. The
  locale \<open>js_text\<close> is what is asked of \<open>serde_json\<close>: a JSON string is a JavaScript
  string literal, a JSON number is free of quotes and brackets.
\<close>

locale js_text =
  fixes E :: "('l, 'p) ext"
  assumes json: "json_lexical E"
begin

lemma bal_string: "bal (json_to_string E (JString s))"
  using json by (intro balI) (simp add: json_lexical_def)

lemma bal_escape: "bal (escape_str E s)"
  by (simp add: escape_str_def bal_string)

lemma bal_number: "bal (json_to_string E (JNumber n))"
  using json by (intro bal_plain) (simp add: json_lexical_def)

end

text \<open>Literal text is checked by running the scanner.\<close>

lemma bal_scan: "bal s \<Longrightarrow> scan Code st s = Some st"
  using balD [of s st "[]"] by simp

lemmas scan_simps = bal_def opens_def lex_defs const_defs

subsection \<open>Names\<close>

lemma alnum_plain: "is_ascii_alphanumeric c \<Longrightarrow> plain_char c"
  by (auto simp: plain_char_def is_ascii_alphanumeric_def is_ascii_alphabetic_def
    is_open_def is_close_def is_quote_def)

lemma plain_show_nat: "plain (show_nat n)"
proof (induction n rule: show_nat.induct)
  case (1 n)
  have "plain_char (digit_char d)" if "d < 10" for d
    by (intro alnum_plain) (use that in \<open>simp add: is_ascii_alphanumeric_def digit_char_def\<close>)
  with 1 show ?case by (subst show_nat.simps) simp
qed

lemma raw_safe_plain: "attrelem_raw_safe s \<Longrightarrow> plain s"
  by (auto simp: attrelem_raw_safe_def plain_def list_all_iff alnum_plain split: list.splits)

lemma plain_replaced:
  "list_all nix_ident_char s \<Longrightarrow>
   plain (replace_char (CHR 0x27) ''_$'' (replace_char (CHR ''-'') ''_$_'' s))"
proof (induction s)
  case (Cons c s)
  then consider "c = CHR ''-''" | "c = CHR 0x27" | "c = CHR ''_''" | "is_ascii_alphanumeric c"
      "c \<noteq> CHR ''-''" "c \<noteq> CHR 0x27"
    by (auto simp: nix_ident_char_def)
  moreover have marks: "plain ''_$_''" by (simp add: lex_defs)
  ultimately show ?case
    using Cons marks by cases (simp_all add: replace_char_append alnum_plain)
qed simp

lemma plain_mangle: "name_ok vn \<Longrightarrow> plain (mangle_var vn)"
  by (simp add: mangle_var_def name_ok_def plain_replaced const_defs lex_defs)

context js_text
begin

lemma bal_index: "bal (index_text E vn)"
proof (cases "attrelem_raw_safe vn")
  case True
  then have "bal vn" by (intro bal_plain raw_safe_plain)
  with True show ?thesis by (simp add: index_text_def scan_simps)
next
  case False
  then show ?thesis using bal_escape [of vn] by (simp add: index_text_def scan_simps)
qed

lemma bal_ident_text:
  assumes "name_ok vn" "categ_ok vn categ"
  shows "bal (ident_text E vn categ)"
proof -
  have b: "plain (case strip_prefix ''__'' b of None \<Rightarrow> b | Some s \<Rightarrow> s)" if "plain b" for b
    using that by (auto simp: strip_prefix_Some split: option.split)
  have rt: "plain NIX_BUILTINS_RT" "plain ''.''" by (simp_all add: const_defs lex_defs)
  have scope: "bal (NIX_IN_SCOPE @ index_text E vn)"
    by (intro bal_append bal_index bal_plain) (simp add: const_defs lex_defs)
  show ?thesis
  proof (cases categ)
    case (AlBuiltin a)
    with assms have "plain a" by (simp add: categ_ok_def name_ok_def)
    with b [of a] rt AlBuiltin show ?thesis by (simp add: ident_text_def bal_plain)
  qed (use assms scope plain_mangle [OF assms(1)] in \<open>simp_all add: ident_text_def categ_ok_def bal_plain\<close>)
qed

lemma em_escape_str: "emits [] (translate_node_ident_escape_str E i) []"
  unfolding translate_node_ident_escape_str_def Let_def
  by (intro emits_bind emits_snapshot_ident emits_push emits_ret) (simp_all add: bal_escape)

lemma em_indexing: "emits [] (translate_node_ident_indexing E i) []"
  unfolding translate_node_ident_indexing_def Let_def
  by (intro emits_bind emits_snapshot_ident emits_push emits_ret) (simp_all add: bal_index)

lemma em_acc_from: "emits [] (acc_from p) []"
  by (rule emits_quiet) (simp add: acc_from_def tm_simps)

lemma em_handle_lazyness: "emits [] m [] \<Longrightarrow> emits [] (handle_lazyness sctx m) []"
  unfolding handle_lazyness_def
  by (auto intro!: emits_lazyness emits_bind_gets emits_bind emits_ret em_acc_from split: option.split)

lemma em_ident_raw:
  assumes "name_ok vn" "categ_ok vn categ"
  shows "emits [] (translate_node_ident_raw E sctx q vn categ) []"
proof -
  have "emits [] (snapshot_ident E q (push (ident_text E vn categ)) :: ('l, 'p, unit) act) []"
    by (intro emits_snapshot_ident emits_push) (simp add: bal_ident_text assms)
  then show ?thesis
    unfolding translate_node_ident_raw_def Let_def
    by (auto intro!: emits_bind_gets emits_bind emits_ret em_handle_lazyness em_acc_from
      split: option.split)
qed

lemma em_ident:
  assumes "name_ok (as_str i)"
  shows "emits [] (translate_node_ident E sctx i) []"
proof (rule emitsI)
  fix c a c' assume c: "vars_ok c" "translate_node_ident E sctx i c = Inr (a, c')"
  then obtain categ where r: "resolve_ident c i = Inr categ"
    and t: "translate_node_ident_raw E sctx (id_rng i) (as_str i) categ c = Inr (a, c')"
    by (auto simp: translate_node_ident_def bind_eq_Inr tm_simps split: sum.splits)
  have "categ_ok (as_str i) categ"
    using r c(1) by (auto simp: resolve_ident_def vars_ok_def categ_ok_def split: option.splits if_splits
      dest!: lookup_var_mem)
  from emitsE [OF em_ident_raw [OF assms this] t c(1)]
  show "vars_ok c' \<and> (\<exists>s. acc c' = acc c @ s \<and> bal ([] @ s @ []))" by blast
qed

lemma em_rtv: "(\<And>n. x = Some n \<Longrightarrow> emits [] (tn s n) []) \<Longrightarrow> emits [] (rtv tn s q x d) []"
  unfolding rtv_def by (auto intro!: emits_bind_gets emits_throw split: option.split)

lemma em_line_err: "emits [] (line_err q msg) []"
  unfolding line_err_def by (intro emits_bind_gets emits_throw)

lemma em_force_str:
  "(\<And>s. emits [] (tn s n) []) \<Longrightarrow> emits [] (translate_node_key_element_force_str E tn n) []"
  unfolding translate_node_key_element_force_str_def
  by (auto intro!: emits_void em_escape_str split: option.split)

lemma em_key_indexing:
  "(\<And>s. emits [] (tn s n) []) \<Longrightarrow> emits [] (translate_node_key_element_indexing E tn n) []"
  unfolding translate_node_key_element_indexing_def seqs.simps bind_skip
  by (auto intro!: emits_void em_indexing emits_bind_push emits_bind emits_push split: option.split
    simp: scan_simps)


subsection \<open>Entries\<close>

lemma em_scope_indexing:
  assumes tn: "\<And>s. emits [] (tn s k) []" and k: "\<And>i. cast_ident k = Some i \<Longrightarrow> name_ok (as_str i)"
    and sc: "\<And>s. sc = Some s \<Longrightarrow> bal s"
  shows "emits [] (translate_node_scope_indexing E tn k sc) []"
  unfolding translate_node_scope_indexing_def seqs.simps bind_skip
  by (auto intro!: emits_void emits_bind emits_push emits_throw em_ident em_key_indexing tn
    simp: k sc split: option.split)

lemma em_scope_indexing_ident:
  assumes "name_ok (as_str i)" and "\<And>s. sc = Some s \<Longrightarrow> bal s"
  shows "emits [] (translate_node_scope_indexing E tn (ident_node i) sc) []"
proof -
  have "emits [] (translate_node_scope_indexing E (\<lambda>_ _. skip) (ident_node i) sc) []"
    using assms by (intro em_scope_indexing emits_ret) auto
  then show ?thesis by (simp only: scope_indexing_ident [of E tn _ _ "\<lambda>_ _. skip"])
qed

lemma em_deep_init:
  assumes "\<And>s. emits [] (tn s k) []" "bal sc"
  shows "emits [] (seqs [push (''if(!Object.prototype.hasOwnProperty.call('' @ sc @ '',''),
    translate_node_key_element_force_str E tn k, push (''))'' @ sc),
    translate_node_key_element_indexing E tn k, push ''=Object.create(null);'']) []"
  using assms(2) bal_scan [OF assms(2)] unfolding seqs.simps bind_skip
  by (intro emits_bind_push emits_bind em_force_str em_key_indexing assms(1) emits_push)
    (simp_all add: scan_simps)

lemma em_deep_merge:
  assumes "emits [] m1 []" "emits [] m2 []" "\<And>k. k \<in> set ks \<Longrightarrow> emits [] (f k) []"
  shows "emits [] (seqs [push (''await '' @ NIX_OPERATORS @ ''._deepMerge(''), m1, push '','', m2,
    seqs (map (\<lambda>k. seqs [push '','', f k]) ks), push '');'']) []"
  unfolding seqs.simps bind_skip
  by (intro emits_bind_push emits_bind emits_seqs emits_push assms)
    (auto simp: scan_simps intro!: emits_bind_push emits_last assms)

lemma em_kv:
  assumes tn: "\<And>s n. n \<in> set_key_value i \<Longrightarrow> emits [] (tn s n) []"
    and nm: "\<And>n j. n \<in> set_key_value i \<Longrightarrow> cast_ident n = Some j \<Longrightarrow> name_ok (as_str j)"
    and sc: "\<And>s. sc = Some s \<Longrightarrow> bal s"
  shows "emits [] (translate_node_kv E tn vs i sc) []"
proof (cases i)
  case (KeyValue r k v)
  show ?thesis
  proof (cases "\<exists>kpfi kpr v0. k = Some (kpfi # kpr) \<and> v = Some v0")
    case False
    then show ?thesis by (auto simp: KeyValue translate_node_kv_def em_line_err split: option.splits list.splits)
  next
    case True
    then obtain kpfi kpr v0 where kv: "k = Some (kpfi # kpr)" "v = Some v0" by blast
    then have mem: "kpfi \<in> set_key_value i" "v0 \<in> set_key_value i" "\<And>x. x \<in> set kpr \<Longrightarrow> x \<in> set_key_value i"
      by (auto simp: KeyValue)
    have idx: "emits [] (translate_node_scope_indexing E tn kpfi sc) []"
      using nm mem by (intro em_scope_indexing tn sc) auto
    have one: "emits [] (seqs [translate_node_scope_indexing E tn kpfi sc, push ''='', tn vs v0, push '';'']) []"
      unfolding seqs.simps bind_skip
      by (intro emits_bind_push emits_bind idx tn mem emits_push) (simp_all add: scan_simps)
    have init: "emits [] (case sc of None \<Rightarrow> skip | Some sc \<Rightarrow>
        seqs [push (''if(!Object.prototype.hasOwnProperty.call('' @ sc @ '',''),
          translate_node_key_element_force_str E tn kpfi, push (''))'' @ sc),
          translate_node_key_element_indexing E tn kpfi, push ''=Object.create(null);'']) []"
      by (cases sc) (simp_all only: option.case sc em_deep_init tn mem emits_ret bal_Nil append_Nil)
    show ?thesis
      unfolding translate_node_kv_def KeyValue kv key_value.sel option.case list.case
      by (simp only: one simp_thms seqs.simps(2) [of _ "push (''await '' @ _) # _"] split: if_split)
        (intro impI emits_bind init em_deep_merge idx tn mem em_force_str opens_Nil)
  qed
qed

lemma em_inherit_from_one:
  assumes "\<And>s n. n \<in> set_inherit_from f \<Longrightarrow> emits [] (tn s n) []"
  shows "emits [] (inherit_from_one E tn f i) []"
  unfolding inherit_from_one_def seqs.simps bind_skip
  by (cases f) (use assms in \<open>auto intro!: emits_bind emits_void em_rtv em_indexing\<close>)

lemma em_inherit_single:
  assumes "name_ok (as_str i)" "\<And>s. sc = Some s \<Longrightarrow> bal s" "emits [] m []"
  shows "emits [] (seqs [translate_node_scope_indexing E tn (ident_node i) sc, push ''='', m, push '';'']) []"
  unfolding seqs.simps bind_skip
  by (intro emits_bind_push emits_bind em_scope_indexing_ident [OF assms(1,2)] emits_push assms(3))
    (simp_all add: scan_simps)

lemma em_inherit_then:
  assumes "name_ok (as_str i)" "\<And>s. sc = Some s \<Longrightarrow> bal s" "bal var"
  shows "emits [] (seqs [translate_node_scope_indexing E tn (ident_node i) sc,
    push (''='' @ var @ ''.then(nixV=>nixV''), void (translate_node_ident_indexing E i), push '');'']) []"
  using assms(3) unfolding seqs.simps bind_skip
  by (intro emits_bind_push emits_bind em_scope_indexing_ident [OF assms(1,2)] emits_push emits_void
    em_indexing)
    (simp_all add: scan_simps)

lemma em_inherit_many:
  assumes "emits [] m []" "emits [] ms []" "\<And>x. u = Some x \<Longrightarrow> bal x"
  shows "emits [] (seqs [case u of Some x \<Rightarrow> seqs [push ''const '', push x]
      | None \<Rightarrow> push ''await (async ()=>{const nixInhR'',
    push ''='', m, push '';'', ms, if u = None then push ''})()'' else skip, push '';'']) []"
proof (cases u)
  case None
  show ?thesis
    unfolding seqs.simps bind_skip None option.case if_True simp_thms
    by (intro emits_bind_push emits_bind emits_push assms(1,2)) (simp_all add: scan_simps)
next
  case (Some x)
  then have "bal x" by (rule assms(3))
  show ?thesis
    unfolding seqs.simps bind_skip Some option.case bind_assoc if_False option.distinct bind_ret
    using \<open>bal x\<close> bal_scan [OF \<open>bal x\<close>]
    by (intro emits_bind_push emits_bind emits_push emits_ret emits_if assms(1,2)) (simp_all add: scan_simps)
qed

lemma em_inherit:
  assumes tn: "\<And>s n. n \<in> set_inherit i \<Longrightarrow> emits [] (tn s n) []"
    and nm: "\<And>j. j \<in> set (inh_idents i) \<Longrightarrow> name_ok (as_str j)"
    and sc: "\<And>s. sc = Some s \<Longrightarrow> bal s" and u: "\<And>x. u = Some x \<Longrightarrow> bal x"
  shows "emits [] (translate_node_inherit E tn vs i sc u) []"
proof (cases "inh_from i")
  case None
  then show ?thesis
    unfolding translate_node_inherit_def
    by (simp del: seqs.simps, intro emits_seqs)
      (auto simp del: seqs.simps intro!: em_inherit_single emits_void em_ident nm sc)
next
  case (Some f)
  have f: "emits [] (tn s n) []" if "n \<in> set_inherit_from f" for s n
    using tn that Some by (cases i) auto
  then have rtv: "emits [] (rtv tn s q (inhf_inner f) d) []" for s q d
    by (cases f) (auto intro: em_rtv)
  have var: "bal (case u of Some x \<Rightarrow> x | None \<Rightarrow> ''nixInhR'')"
    using u by (auto simp: scan_simps split: option.split)
  have then': "emits [] (seqs (map (\<lambda>i. seqs [translate_node_scope_indexing E tn (ident_node i) sc,
      push (''='' @ (case u of Some x \<Rightarrow> x | None \<Rightarrow> ''nixInhR'') @ ''.then(nixV=>nixV''),
      void (translate_node_ident_indexing E i), push '');'']) (inh_idents i))) []"
    by (rule emits_seqs) (auto simp del: seqs.simps intro!: em_inherit_then [unfolded append_Cons append_Nil] nm sc var)
  consider j where "inh_idents i = [j]" | "\<nexists>j. inh_idents i = [j]" by blast
  then show ?thesis
  proof cases
    case 1
    then show ?thesis
      unfolding translate_node_inherit_def Some option.case 1 list.case
      using nm [of j] 1 by (intro em_inherit_single emits_lazyness em_inherit_from_one f sc) simp_all
  next
    case 2
    then have "translate_node_inherit E tn vs i sc u =
      (let inhf_var = (case u of Some x \<Rightarrow> x | None \<Rightarrow> ''nixInhR'')
       in seqs [case u of Some x \<Rightarrow> seqs [push ''const '', push x]
                | None \<Rightarrow> push ''await (async ()=>{const nixInhR'',
                push ''='',
                lazyness_incoming (mksctx Nothing Want) Forward Flush Front
                  (\<lambda>sctx. rtv tn sctx (inhf_rng f) (inhf_inner f) ''inner for inherit-from''),
                push '';'',
                seqs (map (\<lambda>i. seqs [translate_node_scope_indexing E tn (ident_node i) sc,
                  push (''='' @ inhf_var @ ''.then(nixV=>nixV''),
                  void (translate_node_ident_indexing E i), push '');'']) (inh_idents i)),
                if u = None then push ''})()'' else skip,
                push '';''])"
      unfolding translate_node_inherit_def Some option.case by (auto split: list.split)
    then show ?thesis
      by (simp only: Let_def) (intro em_inherit_many emits_lazyness rtv then' u)
  qed
qed

subsection \<open>Bindings\<close>

lemma em_let_entries:
  assumes tn: "\<And>s n. n \<in> set_entry_holder eh \<Longrightarrow> emits [] (tn s n) []"
    and nm: "\<And>n j. n \<in> set_entry_holder eh \<Longrightarrow> cast_ident n = Some j \<Longrightarrow> name_ok (as_str j)"
    and ids: "\<And>j. j \<in> holder_idents eh \<Longrightarrow> name_ok (as_str j)"
    and sc: "\<And>s. sc = Some s \<Longrightarrow> bal s"
  shows "emits [] (let_entries E tn vs eh sc) []"
proof -
  have "emits [] (translate_node_kv E tn vs k sc) []" if "k \<in> set (entries eh)" for k
    by (rule em_kv) (metis tn nm sc set_entry_holder_entry [OF that])+
  moreover have "emits [] (translate_node_inherit E tn vs i sc (Some (''nixInhR'' @ show_nat k))) []"
    if "i \<in> set (inherits eh)" for i k
    by (rule em_inherit)
      (use tn ids sc set_entry_holder_inherit [OF that] that in
        \<open>auto simp: holder_idents_def plain_show_nat lex_defs intro!: bal_plain\<close>)
  ultimately show ?thesis
    unfolding let_entries_def seqs.simps(2) bind_skip seqs.simps(1)
    by (intro emits_bind emits_seqs opens_Nil) (auto simp: in_set_enumerate_eq)
qed

lemma em_object_inherit:
  assumes "name_ok (as_str i)" and "\<And>f s n. x = Some f \<Longrightarrow> n \<in> set_inherit_from f \<Longrightarrow> emits [] (tn s n) []"
  shows "emits [] (let_object_inherit E tn vs (i, x)) []"
proof -
  have "emits [] (case x of Some x \<Rightarrow> lazyness_incoming vs Flush Flush Front (\<lambda>_. inherit_from_one E tn x i)
    | None \<Rightarrow> void (translate_node_ident E (Some vs) i)) []"
    using assms by (auto intro!: emits_lazyness em_inherit_from_one emits_void em_ident split: option.split)
  then show ?thesis
    unfolding let_object_inherit_def prod.case seqs.simps bind_skip
    by (intro emits_bind emits_void em_escape_str emits_push) (simp_all add: scan_simps)
qed

lemma em_object_entry:
  assumes "\<And>s n. n \<in> set_key_value k \<Longrightarrow> emits [] (tn s n) []"
  shows "emits [] (let_object_entry E tn vs k) []"
proof -
  have "emits [] (tn vs v) []" if "kv_value k = Some v" for v
    by (rule assms) (use that in \<open>cases k; auto\<close>)
  then show ?thesis
    unfolding let_object_entry_def seqs.simps bind_skip
    by (auto intro!: emits_bind emits_void em_escape_str emits_push emits_throw simp: scan_simps
      split: option.split prod.split)
qed

lemma em_let_object:
  assumes tn: "\<And>s n. n \<in> set_entry_holder eh \<Longrightarrow> emits [] (tn s n) []"
    and ids: "\<And>j. j \<in> holder_idents eh \<Longrightarrow> name_ok (as_str j)"
  shows "emits [] (let_object E tn vs eh) []"
proof -
  have "emits [] (let_object_entry E tn vs k) []" if "k \<in> set (entries eh)" for k
    by (intro em_object_entry tn set_entry_holder_entry [OF that])
  moreover have "emits [] (let_object_inherit E tn vs p) []" if "p \<in> set (inherit_pairs eh)" for p
  proof -
    obtain i f where p: "p = (i, f)" by fastforce
    with that obtain inh where inh: "inh \<in> set (inherits eh)" "inh_from inh = f" "i \<in> set (inh_idents inh)"
      by (auto elim: inherit_pairs_mem)
    have "name_ok (as_str i)" using ids inh by (auto simp: holder_idents_def)
    moreover have "emits [] (tn s n) []" if "f = Some g" "n \<in> set_inherit_from g" for s n g
      by (rule tn, rule set_entry_holder_inherit [OF inh(1)]) (use that inh in \<open>cases inh; auto\<close>)
    ultimately show ?thesis unfolding p by (rule em_object_inherit)
  qed
  ultimately show ?thesis
    unfolding let_object_def seqs.simps bind_skip
    by (intro emits_bind_push emits_bind emits_seqs_sep emits_push) (auto simp: scan_simps)
qed

lemma em_let_return:
  assumes "\<And>s n. b = LetNix n \<Longrightarrow> emits [] (tn s n) []" "bal sc"
  shows "emits [] (let_return tn b sc) []"
  unfolding let_return_def seqs.simps bind_skip
  by (cases b) (use assms in \<open>auto intro!: emits_bind emits_push simp: scan_simps\<close>)

lemma em_let_declare: "name_ok vn \<Longrightarrow> emits [] (let_declare E (q, vn)) []"
  unfolding let_declare_def prod.case seqs.simps bind_skip
  by (intro emits_bind emits_push_var emits_void em_ident_raw) (simp_all add: categ_ok_def)

lemma getkeys_name_ok:
  assumes "(q, vn) \<in> set (getkeys eh)"
    and "\<And>n j. n \<in> set_entry_holder eh \<Longrightarrow> cast_ident n = Some j \<Longrightarrow> name_ok (as_str j)"
    and "\<And>j. j \<in> holder_idents eh \<Longrightarrow> name_ok (as_str j)"
  shows "name_ok vn"
  using getkeys_mem [OF assms(1)] assms(2,3) by metis

lemma em_let_vars:
  assumes tn: "\<And>s n. n \<in> set_entry_holder eh \<Longrightarrow> emits [] (tn s n) []"
    and nm: "\<And>n j. n \<in> set_entry_holder eh \<Longrightarrow> cast_ident n = Some j \<Longrightarrow> name_ok (as_str j)"
    and ids: "\<And>j. j \<in> holder_idents eh \<Longrightarrow> name_ok (as_str j)"
    and b: "\<And>s n. b = LetNix n \<Longrightarrow> emits [] (tn s n) []" and sc: "bal sc"
  shows "emits [] (let_vars E tn vs eh b sc) []"
proof -
  have "emits [] (seqs_sep True (push '','') (map (let_declare E) (getkeys eh))) []"
    by (rule emits_seqs_sep)
      (auto intro!: em_let_declare emits_push getkeys_name_ok [OF _ nm ids] simp: scan_simps)
  moreover have "emits [] (let_entries E tn vs eh None) []"
    by (rule em_let_entries) (use tn nm ids in auto)
  ultimately show ?thesis
    unfolding let_vars_def seqs.simps bind_skip
    by (intro emits_scoped emits_bind_push emits_bind em_let_return [OF b sc] emits_push)
      (simp_all add: scan_simps)
qed

lemma em_let_scope:
  assumes tn: "\<And>s n. n \<in> set_entry_holder eh \<Longrightarrow> emits [] (tn s n) []"
    and nm: "\<And>n j. n \<in> set_entry_holder eh \<Longrightarrow> cast_ident n = Some j \<Longrightarrow> name_ok (as_str j)"
    and ids: "\<And>j. j \<in> holder_idents eh \<Longrightarrow> name_ok (as_str j)"
    and b: "\<And>s n. b = LetNix n \<Longrightarrow> emits [] (tn s n) []" and sc: "bal sc"
  shows "emits [] (let_scope E tn vs eh b sc) []"
proof -
  have vs: "emits [] (if sc = NIX_IN_SCOPE then seqs (map (\<lambda>(_, i). push_var i LetInScopeVar) (getkeys eh))
      else skip) []"
    by (auto intro!: emits_seqs emits_push_var emits_ret simp: categ_ok_def)
  have "emits [] (let_entries E tn vs eh (Some sc)) []"
    by (rule em_let_entries) (use tn nm ids sc in auto)
  then show ?thesis
    unfolding let_scope_def seqs.simps bind_skip
    using sc bal_scan [OF sc]
    by (intro emits_bind_push emits_bind_last emits_scoped emits_bind vs em_let_return [OF b sc])
      (auto simp: scan_simps intro!: emits_push emits_ret)
qed

lemma em_translate_let:
  assumes tn: "\<And>s n. n \<in> set_entry_holder eh \<Longrightarrow> emits [] (tn s n) []"
    and nm: "\<And>n j. n \<in> set_entry_holder eh \<Longrightarrow> cast_ident n = Some j \<Longrightarrow> name_ok (as_str j)"
    and ids: "\<And>j. j \<in> holder_idents eh \<Longrightarrow> name_ok (as_str j)"
    and b: "\<And>s n. b = LetNix n \<Longrightarrow> emits [] (tn s n) []" and sc: "bal sc"
  shows "emits [] (translate_let E tn vs lz eh b sc) []"
proof -
  have "emits [] (case b of LetNix b \<Rightarrow> tn vs b | ExtractScope \<Rightarrow> push ''Object.create(null)'') []"
    by (cases b) (auto intro!: b emits_push simp: scan_simps)
  moreover have "emits [] (let_object E tn v eh) []" for v by (intro em_let_object tn ids)
  moreover have "emits [] (let_vars E tn v eh b sc) []" for v
    by (rule em_let_vars) (use tn nm ids b sc in blast)+
  moreover have "emits [] (let_scope E tn v eh b sc) []" for v
    by (rule em_let_scope) (use tn nm ids b sc in blast)+
  ultimately show ?thesis
    unfolding translate_let_def Let_def by (intro emits_if emits_lazyness)
qed

subsection \<open>Lambda\<close>

lemma em_pattern_entries: "emits [] (pattern_entries d ps) []"
  by (induction ps)
    (auto intro!: emits_ret emits_bind emits_push_var emits_throw simp: categ_ok_def split: option.split)

text \<open>The name that \<open>translate_node_ident\<close> returns is the text it has written.\<close>

lemma ident_result:
  assumes "translate_node_ident E None i c = Inr (a, c')"
  shows "a = drop (length (acc c)) (acc c')"
  using assms
  by (auto simp: translate_node_ident_def translate_node_ident_raw_def handle_lazyness_def acc_from_def
    bind_eq_Inr tm_simps Let_def split: sum.splits if_splits)

lemma em_argname:
  "(\<And>z. at = Some z \<Longrightarrow> name_ok (as_str z)) \<Longrightarrow> emits [] (lambda_argname E at) []"
  unfolding lambda_argname_def
  by (auto intro!: emits_bind emits_push_var em_ident emits_push emits_ret
    simp: categ_ok_def scan_simps split: option.split)

lemma bal_argname:
  assumes "\<And>z. at = Some z \<Longrightarrow> name_ok (as_str z)" "vars_ok c"
    and "lambda_argname E at c = Inr (a, c')"
  shows "bal a"
proof (cases at)
  case None
  then show ?thesis using assms(3) by (auto simp: lambda_argname_def bind_eq_Inr tm_simps scan_simps)
next
  case (Some z)
  with assms(3) obtain c1 where c1: "push_var (as_str z) LambdaArg c = Inr ((), c1)"
    "translate_node_ident E None z c1 = Inr (a, c')"
    by (auto simp: lambda_argname_def bind_eq_Inr)
  have "vars_ok c1" using emitsE [OF emits_push_var c1(1) assms(2)] by (auto simp: categ_ok_def)
  then obtain s where "acc c' = acc c1 @ s" "bal s"
    using emitsE [OF em_ident [OF assms(1) [OF Some]] c1(2)] by auto
  then show ?thesis using ident_result [OF c1(2)] by simp
qed

lemma em_lambda_entry:
  assumes "name_ok (as_str (fst p))" "\<And>s n. snd p = Some n \<Longrightarrow> emits [] (tn s n) []" "bal arg"
  shows "emits [] (lambda_entry E tn arg p) []"
proof -
  have "emits [] (case snd p of None \<Rightarrow> skip | Some z \<Rightarrow> seqs [push '','', tn (mksctx Nothing Want) z]) []"
    unfolding seqs.simps bind_skip
    using assms(2) by (auto intro!: emits_ret emits_bind emits_push simp: scan_simps split: option.split)
  then show ?thesis
    using assms(1,3) unfolding lambda_entry_def case_prod_beta seqs.simps bind_skip
    by (intro emits_bind_push emits_bind emits_void em_ident em_escape_str emits_push)
      (simp_all add: scan_simps)
qed

lemma em_lambda_pattern:
  assumes tn: "\<And>s n. n \<in> set_pattern y \<Longrightarrow> emits [] (tn s n) []"
    and b: "\<And>s n. body = Some n \<Longrightarrow> emits [] (tn s n) []"
    and ids: "\<And>j. j \<in> pattern_idents y \<Longrightarrow> name_ok (as_str j)"
  shows "emits ''(async '' (lambda_pattern E tn r y body) ''})''"
  unfolding lambda_pattern_def
proof (rule emits_bind_res)
  show at: "emits [] (lambda_argname E (pat_at y)) []"
    using ids by (intro em_argname) (simp add: pattern_idents_def)
  fix a c c' assume a: "lambda_argname E (pat_at y) c = Inr (a, c')" "vars_ok c"
  have bal: "bal a" using ids by (intro bal_argname [OF _ a(2,1)]) (simp add: pattern_idents_def)
  have body: "emits [] (rtv tn (mksctx Want Nothing) r body ''body for lambda'') []"
    using b by (rule em_rtv)
  have entry: "emits [] (lambda_entry E tn a p) []"
    if es: "pattern_entries (pat_dbg y) (pat_entries y) c1 = Inr (es, c2)" "p \<in> set es" for c1 c2 es p
  proof -
    from pattern_entries_mem [OF es] obtain e
      where e: "e \<in> set (pat_entries y)" "pe_name e = Some (fst p)" "pe_default e = snd p" .
    have "fst p \<in> pattern_idents y" using e by (force simp: pattern_idents_def)
    moreover have "n \<in> set_pattern y" if "snd p = Some n" for n
    proof -
      have "n \<in> set_pat_entry e" by (cases e) (use e(3) that in simp)
      with e(1) show ?thesis by (cases y) auto
    qed
    ultimately show ?thesis using ids tn bal by (intro em_lambda_entry) auto
  qed
  show "emits ''(async '' (bind (pattern_entries (pat_dbg y) (pat_entries y)) (\<lambda>es.
      seqs [push ''=>{'', push a, push ''=await '', push a, push '';'', seqs (map (lambda_entry E tn a) es),
            push ''return '', rtv tn (mksctx Want Nothing) r body ''body for lambda''])) ''})''"
    unfolding seqs.simps bind_skip
    using bal bal_scan [OF bal]
    by (intro emits_bind_res em_pattern_entries emits_bind_push emits_last [OF _ _ body])
      (auto simp: scan_simps intro!: emits_seqs entry)
qed (simp add: scan_simps)

lemma em_lambda_ident:
  assumes "name_ok (as_str j)" "\<And>s n. b = Some n \<Longrightarrow> emits [] (tn s n) []"
  shows "emits ''(async '' (seqs [scoped (seqs [push_var (as_str j) LambdaArg,
      void (translate_node_ident E None j), push ''=>('',
      rtv tn (mksctx Want Nothing) r b ''body for lambda'']), push '')'']) '')''"
  unfolding seqs.simps bind_skip
  by (intro emits_bind_last emits_scoped emits_bind emits_bind_push emits_push_var emits_void em_ident
    emits_last [OF _ _ em_rtv] assms) (simp_all add: scan_simps categ_ok_def)

lemma em_lambda_arg:
  assumes "\<And>s n. n \<in> subnodes (PtLambda (Some y) b) \<Longrightarrow> emits [] (tn s n) []"
    and ids: "\<And>j. j \<in> own_idents (PtLambda (Some y) b) \<Longrightarrow> name_ok (as_str j)"
  shows "emits ''(async '' (case cast_ident y of
      Some y \<Rightarrow> seqs [scoped (seqs [push_var (as_str y) LambdaArg, void (translate_node_ident E None y),
        push ''=>('', rtv tn (mksctx Want Nothing) r b ''body for lambda'']), push '')'']
    | None \<Rightarrow> (case cast_pattern y of
         Some y \<Rightarrow> seqs [scoped (lambda_pattern E tn r y b), push ''}'']
       | None \<Rightarrow> throw (Err e))) '')''"
proof -
  have b: "emits [] (tn s n) []" if "b = Some n" for s n
    using assms(1) that by (simp add: subnodes_def)
  have pat: "emits ''(async '' (seqs [scoped (lambda_pattern E tn r p b), push ''}'']) '')''"
    if "cast_pattern y = Some p" for p
  proof -
    have "set_pattern p \<subseteq> subnodes (PtLambda (Some y) b)"
      using that by (cases y) (auto simp: subnodes_def cast_pattern_def split: parsed_type.splits)
    moreover have "pattern_idents p \<subseteq> own_idents (PtLambda (Some y) b)"
      using that by (auto simp: own_idents_def)
    ultimately have "emits ''(async '' (lambda_pattern E tn r p b) ''})''"
      using assms(1) ids b by (intro em_lambda_pattern) auto
    then show ?thesis unfolding seqs.simps bind_skip by (intro emits_bind_last emits_scoped) simp
  qed
  show ?thesis
  proof (cases "cast_ident y")
    case None
    then show ?thesis
      by (cases "cast_pattern y") (simp_all only: option.case pat emits_throw)
  next
    case (Some j)
    then have "name_ok (as_str j)" using ids by (simp add: own_idents_def)
    then show ?thesis unfolding Some option.case using b by (rule em_lambda_ident)
  qed
qed

lemma em_lambda:
  assumes "\<And>s n. n \<in> subnodes (PtLambda a b) \<Longrightarrow> emits [] (tn s n) []"
    and ids: "\<And>j. j \<in> own_idents (PtLambda a b) \<Longrightarrow> name_ok (as_str j)"
  shows "emits [] (node_lambda E tn r d a b) []"
proof (cases a)
  case None
  then show ?thesis by (simp add: node_lambda_def emits_throw)
next
  case (Some y)
  note arg = em_lambda_arg [OF assms [unfolded Some]]
  show ?thesis
    unfolding node_lambda_def Some option.case seqs.simps bind_skip append_Nil
    by (intro emits_bind_push emits_bind_last) (simp add: arg [unfolded seqs.simps bind_skip])
qed

subsection \<open>The other arms\<close>

text \<open>A call \<open>f(a,b)\<close>, a bracket and a parenthesis around balanced text.\<close>

lemma em_call2:
  assumes "emits [] m1 []" "emits [] m2 []"
    and "opens f" "opens (f @ sep)" "bal (f @ sep @ close)"
  shows "emits [] (seqs [push f, m1, push sep, m2, push close]) []"
  unfolding seqs.simps bind_skip
  using assms by (intro emits_bind_push emits_bind emits_push) simp_all

lemma em_call1:
  assumes "emits [] m []" "opens f" "bal (f @ close)"
  shows "emits [] (seqs [push f, m, push close]) []"
  unfolding seqs.simps bind_skip
  using assms by (intro emits_bind_push emits_bind emits_push) simp_all

lemma em_apply:
  assumes "\<And>s x n. x \<in> {l, v} \<Longrightarrow> x = Some n \<Longrightarrow> emits [] (tn s n) []"
  shows "emits [] (node_apply tn sctx r l v) []"
  unfolding node_apply_def
  by (intro emits_lazyness em_call2 em_rtv assms) (auto simp: scan_simps)

lemma em_assert:
  assumes "\<And>s x n. x \<in> {c, b} \<Longrightarrow> x = Some n \<Longrightarrow> emits [] (tn s n) []"
  shows "emits [] (node_assert E tn sctx r c b) []"
proof -
  have msg: "emits [] (bind (gets inp) (\<lambda>s. push (escape_str E (f s)))) []" for f
    by (intro emits_bind_gets emits_push) (simp add: bal_escape)
  have b: "emits [] (rtv tn s r b d) []" for s d
    using assms by (intro em_rtv) auto
  show ?thesis
  proof (cases c)
    case None
    then show ?thesis
      unfolding node_assert_def None option.case seqs.simps bind_skip
      by (intro emits_lazyness emits_bind_push) (simp add: line_err_def emits_bind_gets emits_throw)
  next
    case (Some n)
    then have "emits [] (tn s n) []" for s using assms by simp
    then show ?thesis
      unfolding node_assert_def Some option.case seqs.simps bind_skip
      by (intro emits_lazyness emits_bind_push emits_bind msg b emits_push)
        (simp_all add: scan_simps)
  qed
qed

lemma em_binop:
  assumes tn: "\<And>s x n. x \<in> {l, r} \<Longrightarrow> x = Some n \<Longrightarrow> emits [] (tn s n) []"
    and op: "\<And>s. op = Some (BinOther s) \<Longrightarrow> plain s"
  shows "emits [] (node_binop E tn sctx q op l r) []"
proof -
  have lr: "emits [] (rtv tn s q l d) []" "emits [] (rtv tn s q r d) []" for s d
    using tn by (intro em_rtv; simp)+
  have rhs: "emits [] (case r of None \<Rightarrow> line_err q e
      | Some x \<Rightarrow> (case cast_ident x of Some y \<Rightarrow> void (translate_node_ident_escape_str E y)
                  | None \<Rightarrow> tn (mksctx Want Nothing) x)) []" for e
    using tn by (auto intro!: em_line_err emits_void em_escape_str split: option.split)
  consider "op = None" | "op = Some IsSet" | s where "op = Some (BinOther s)"
    by (metis binop_kind.exhaust option.exhaust)
  then show ?thesis
  proof cases
    case 1
    then show ?thesis by (simp add: node_binop_def em_line_err)
  next
    case 2
    show ?thesis unfolding 2 node_binop_def option.case binop_kind.case
      by (intro em_call2 lr rhs) (simp_all add: scan_simps)
  next
    case 3
    then have "bal s" by (intro bal_plain op)
    then show ?thesis unfolding 3 node_binop_def option.case binop_kind.case
      by (intro emits_lazyness em_call2 lr) (simp_all add: scan_simps)
  qed
qed

lemma em_ifelse:
  assumes "\<And>s x n. x \<in> {c, a, b} \<Longrightarrow> x = Some n \<Longrightarrow> emits [] (tn s n) []"
  shows "emits [] (node_ifelse tn sctx r c a b) []"
  unfolding node_ifelse_def seqs.simps bind_skip
  by (intro emits_lazyness emits_bind_push emits_bind em_rtv assms emits_push) (auto simp: scan_simps)

lemma em_list:
  assumes "\<And>s n. n \<in> set l \<Longrightarrow> emits [] (tn s n) []"
  shows "emits [] (node_list tn sctx l) []"
  unfolding node_list_def
  by (intro emits_lazyness em_call1 emits_seqs_sep emits_push) (auto simp: scan_simps assms)

lemma em_or_default:
  assumes "\<And>s x n. x \<in> {i, d} \<Longrightarrow> x = Some n \<Longrightarrow> emits [] (tn s n) []"
  shows "emits [] (node_or_default tn sctx r i d) []"
  unfolding node_or_default_def
  by (intro emits_lazyness em_call2 em_rtv assms) (auto simp: scan_simps)

lemma em_select:
  assumes "\<And>s x n. x \<in> {a, i} \<Longrightarrow> x = Some n \<Longrightarrow> emits [] (tn s n) []"
  shows "emits [] (node_select E tn sctx r a i) []"
proof -
  have "emits [] (tn s n) []" if "a = Some n \<or> i = Some n" for s n
    using assms [of a n] assms [of i n] that by auto
  then show ?thesis
    unfolding node_select_def Let_def seqs.simps bind_skip
    by (auto intro!: emits_throw emits_bind_gets emits_lazyness emits_bind em_key_indexing
      split: option.split)
qed

lemma em_str:
  assumes "\<And>s n p. p \<in> set ps \<Longrightarrow> n \<in> set_str_part p \<Longrightarrow> emits [] (tn s n) []"
  shows "emits [] (node_str E tn sctx ps) []"
proof -
  have part: "emits [] (str_part_action E tn p) []" if "p \<in> set ps" for p
  proof (cases p)
    case (SpAst q inner)
    then show ?thesis unfolding SpAst str_part_action_def str_part.case
      by (intro em_call1 em_rtv assms [OF that]) (simp_all add: scan_simps SpAst)
  qed (simp add: str_part_action_def emits_push bal_escape)
  have "emits [] (str_concat E tn sctx ps) []"
    unfolding str_concat_def
    by (intro emits_lazyness em_call1 emits_seqs_sep emits_push) (auto simp: scan_simps part)
  moreover have "emits [] (push [CHR 0x22, CHR 0x22]) []" by (rule emits_push) (simp add: scan_simps)
  moreover have "emits [] (push (escape_str E s)) []" for s by (rule emits_push) (simp add: bal_escape)
  ultimately show ?thesis
    unfolding node_str_def by (auto split: list.split str_part.split)
qed

lemma em_unaryop:
  assumes "\<And>s n. v = Some n \<Longrightarrow> emits [] (tn s n) []"
  shows "emits [] (node_unaryop tn r op v) []"
  unfolding node_unaryop_def
  by (intro em_call1 em_rtv assms; cases op) (auto simp: scan_simps)

lemma em_value: "emits [] (node_value E r v) []"
proof -
  have "bal (NIX_RUNTIME @ ''.export('' @ escape_str E a @ '','' @ escape_str E b @ '')'')" for a b
    using bal_escape [of a] bal_escape [of b] by (simp add: scan_simps)
  then show ?thesis
    unfolding node_value_def
    by (auto intro!: em_line_err emits_throw emits_push bal_number bal_string split: sum.split nix_value.split option.split)
qed

lemma em_in_with: "emits [] m [] \<Longrightarrow> emits [] (in_with m) []"
  unfolding in_with_def seqs.simps bind_skip by (intro emits_bind emits_modify_with opens_Nil)

lemma em_with:
  assumes "\<And>s x n. x \<in> {a, b} \<Longrightarrow> x = Some n \<Longrightarrow> emits [] (tn s n) []"
  shows "emits [] (node_with tn r a b) []"
  unfolding node_with_def
  by (intro em_call2 em_in_with em_rtv assms) (auto simp: scan_simps)

subsection \<open>The tree\<close>

lemma lex_ok_ident: "lex_ok n \<Longrightarrow> cast_ident n = Some j \<Longrightarrow> name_ok (as_str j)"
  by (cases n) (auto simp: cast_ident_Some ident_node_def split: ident.splits)

lemma bal_scopes: "bal NIX_IN_SCOPE" "bal (attrset_scope rec)"
  by (simp_all add: attrset_scope_def scan_simps)

lemma em_translate_parsed:
  assumes lex: "lex_ok (Node mt p)"
    and tn: "\<And>s n. n \<in> subnodes p \<Longrightarrow> emits [] (tn s n) []"
  shows "emits [] (translate_parsed E tn sctx mt p) []"
proof -
  have ids: "\<And>i. i \<in> own_idents p \<Longrightarrow> name_ok (as_str i)" using lex by simp
  have nm: "\<And>n j. n \<in> subnodes p \<Longrightarrow> cast_ident n = Some j \<Longrightarrow> name_ok (as_str j)"
    by (rule lex_ok_ident) (use lex in auto)
  note simps = translate_parsed_def Let_def subnodes_def own_idents_def
  show ?thesis
  proof (cases p)
    case (PtUnparsed k)
    then show ?thesis by (simp add: simps emits_bind_gets emits_throw)
  next
    case (PtBinOp op l r)
    then show ?thesis using lex tn by (auto simp: simps intro!: em_binop)
  next
    case (PtAttrSet rec eh)
    then have "emits [] (translate_let E tn sctx True eh ExtractScope (attrset_scope rec)) []"
      using tn nm ids by (intro em_translate_let bal_scopes) (auto simp: simps)
    with PtAttrSet show ?thesis by (simp add: simps)
  next
    case (PtLegacyLet eh)
    then have "emits [] (translate_let E tn sctx True eh (LetNix b) NIX_IN_SCOPE) []"
      if "legacy_body eh = Some b" for b
      using tn nm ids is_body_value [OF that] by (intro em_translate_let bal_scopes) (auto simp: simps)
    with PtLegacyLet show ?thesis by (simp add: simps node_legacy_let_def em_line_err split: option.split)
  next
    case (PtLetIn eh body)
    then have "emits [] (translate_let E tn sctx True eh (LetNix b) NIX_IN_SCOPE) []" if "body = Some b" for b
      using tn nm ids that by (intro em_translate_let bal_scopes) (auto simp: simps)
    with PtLetIn show ?thesis by (simp add: simps node_let_in_def em_line_err split: option.split)
  next
    case (PtInherit inh)
    then have "emits [] (translate_node_inherit E tn sctx inh (Some NIX_IN_SCOPE) None) []"
      using tn ids by (intro em_inherit) (auto simp: simps bal_scopes)
    with PtInherit show ?thesis by (simp add: simps)
  next
    case (PtLambda a b)
    then show ?thesis using tn ids by (auto simp: translate_parsed_def Let_def intro!: em_lambda)
  next
    case (PtIdent s)
    then show ?thesis using lex by (simp add: simps emits_void em_ident)
  next
    case (PtStr ps)
    then show ?thesis using tn by (auto simp: simps intro!: em_str)
  qed (use tn in \<open>auto simp: simps intro!: em_apply em_assert em_ifelse em_list em_or_default em_select
      em_unaryop em_value em_with em_rtv emits_throw\<close>)
qed

lemma em_translate_node: "lex_ok n \<Longrightarrow> emits [] (translate_node E sctx n) []"
proof (induction n arbitrary: sctx rule: node_subnodes_induct)
  case (Node mt p)
  then have "emits [] (translate_parsed E (translate_node E) sctx mt p) []"
    by (intro em_translate_parsed) auto
  then show ?case by (auto intro!: emits_bind emits_ret emits_snapshot_pos)
qed

text \<open>The whole output.\<close>

lemma bal_prologue: "bal js_prologue"
  by (simp add: js_prologue_def scan_simps)

lemma translate_balanced:
  assumes "translate E s nm = Translated js mp" "lex_ok (snd (rnix_parse E s))"
  shows "js_balanced js"
proof -
  obtain errs root where root: "rnix_parse E s = (errs, root)" by fastforce
  with assms(1) obtain c where c: "translate_node E (mksctx Nothing Want) root (init_ctx E s) = Inr ((), c)"
    and js: "js = acc c @ '';''"
    by (auto simp: translate_def split: if_splits sum.splits fail.splits option.splits)
  have "vars_ok (init_ctx E s)"
    using DFL_VARS_ok by (auto simp: vars_ok_def init_ctx_def list_all_iff)
  from emitsE [OF em_translate_node c this] root assms(2)
  obtain t where "acc c = js_prologue @ t" "bal t" by (auto simp: init_ctx_def)
  moreover have "bal '';''" by (simp add: scan_simps)
  ultimately show ?thesis using bal_prologue by (simp add: js bal_append bal_js_balanced)
qed

end

section \<open>JSON as it is written\<close>

lemma hex_digit_inert:
  assumes "n < 16"
  shows "hex_digit n \<noteq> CHR 0x22 \<and> hex_digit n \<noteq> CHR 0x5C \<and> hex_digit n \<noteq> CHR 0x0A"
proof -
  have "hex_digit n \<in> set ''0123456789abcdef''"
    unfolding hex_digit_def by (rule nth_mem) (use assms in simp)
  then show ?thesis by auto
qed

lemma scan_json_escape: "scan (InStr (CHR 0x22)) st (json_escape c @ t) = scan (InStr (CHR 0x22)) st t"
proof -
  let ?h = "hex_digit (of_char c div 16)" and ?l = "hex_digit (of_char c mod 16)"
  consider "c = CHR 0x22 \<or> c = CHR 0x5C \<or> c = CHR 0x0A"
    | "(of_char c :: nat) < 32" "json_escape c = [CHR 0x5C, CHR ''u'', CHR ''0'', CHR ''0'', ?h, ?l]"
    | "json_escape c = [c]" "c \<noteq> CHR 0x22" "c \<noteq> CHR 0x5C" "c \<noteq> CHR 0x0A"
    unfolding json_escape_def by meson
  then show ?thesis
  proof cases
    case 1
    then show ?thesis by (elim disjE) (simp_all add: json_escape_def)
  next
    case 2
    then show ?thesis using hex_digit_inert [of "of_char c div 16"] hex_digit_inert [of "of_char c mod 16"]
      by simp
  qed simp
qed

lemma scan_json_body:
  "scan (InStr (CHR 0x22)) st (concat (map json_escape s) @ [CHR 0x22]) = Some st"
  by (induction s) (simp_all add: scan_json_escape)

lemma plain_show_int: "plain (show_int i)"
  by (simp add: show_int_def plain_show_nat lex_defs)

lemma ref_json_lexical: "json_lexical (ref_ext root)"
proof -
  have "plain (ref_json (JNumber n))" for n
    by (cases n) (simp_all add: plain_show_int lex_defs)
  moreover have "scan Code st (json_string s) = Some st" for st s
    using scan_json_body [of st s] by (simp add: json_string_def lex_defs)
  ultimately show ?thesis by (simp add: json_lexical_def ref_ext_def)
qed

interpretation ref_js: js_text "ref_ext root" for root
  by unfold_locales (rule ref_json_lexical)

end
