(* ===== verification/Map_Log.thy ===== *)
theory Map_Log
  imports Frame_Instances Reference_Ext
begin

text \<open>
  The source map as a whole. The recorder of \<open>Source_Map\<close> works with differences; here the
  string \<open>mappings\<close> is related to the list of the snapshots that were taken: which prefix of
  the output belongs to which offset of the input, and which identifier ends there. A
  reader of the map gets exactly these positions back.
\<close>

section \<open>What is asked of the position trackers\<close>

text \<open>
  \<open>linetrack::LineCache\<close> tells the line and column of any offset of the text it was made
  for; \<open>PosTrackerExtern\<close> remembers an offset of the output, \<open>off\<close>, and reports by how many
  lines and columns the new end is further on.
\<close>

locale position_ext =
  fixes E :: "('l, 'p) ext"
    and cache_of :: "string \<Rightarrow> 'l \<Rightarrow> bool"
    and off :: "'p \<Rightarrow> nat"
  assumes cache_new: "cache_of s (lc_new E s)"
    and cache_pos: "cache_of s l \<Longrightarrow> fst (lc_run E l n) = line_col (take n s)"
    and cache_run: "cache_of s l \<Longrightarrow> cache_of s (snd (lc_run E l n))"
    and off_default: "off (pt_default E) = 0"
    and off_update: "off p \<le> length a \<Longrightarrow> off (snd (pt_update E p a (length a))) = length a"
    and upd_delta: "off p \<le> length a \<Longrightarrow>
      fst (pt_update E p a (length a)) = Some (map_prod int int (line_col (drop (off p) a)))"

section \<open>The log of snapshots\<close>

text \<open>
  A snapshot: the length of the output, the offset in the input, and the identifier
  that ends there, if any.
\<close>

type_synonym snap = "nat \<times> nat \<times> string option"

text \<open>The differences between two positions of the input.\<close>

definition src_delta :: "string \<Rightarrow> nat \<Rightarrow> nat \<Rightarrow> int \<times> int" where
  "src_delta s o1 o2 =
     (int (fst (line_col (take o2 s))) - int (fst (line_col (take o1 s))),
      int (snd (line_col (take o2 s))) - int (snd (line_col (take o1 s))))"

text \<open>
  The bytes of one snapshot after another at \<open>d0\<close> and \<open>o0\<close>; \<open>fi\<close> says that it is the first. The
  name is the index in the table \<open>ns\<close>.
\<close>

definition snap_bytes ::
  "('l, 'p) ext \<Rightarrow> string list \<Rightarrow> string \<Rightarrow> string \<Rightarrow> bool \<Rightarrow> nat \<Rightarrow> nat \<Rightarrow> snap \<Rightarrow> string" where
  "snap_bytes E ns a s fi d0 o0 e = (case e of (d, p, nm) \<Rightarrow>
     (let (dl, dc) = line_col (take (d - d0) (drop d0 a)); (sl, sc) = src_delta s o0 p
      in replicate dl (CHR '';'') @ (if dl = 0 \<and> \<not> fi then '','' else []) @
         vlq_encode E (int dc) @
         (if (sl, sc) \<noteq> (0, 0) then vlq_encode E 0 @ vlq_encode E sl @ vlq_encode E sc else []) @
         (case nm of None \<Rightarrow> [] | Some x \<Rightarrow> vlq_encode E (int (the (find_index x ns))))))"

fun log_bytes ::
  "('l, 'p) ext \<Rightarrow> string list \<Rightarrow> string \<Rightarrow> string \<Rightarrow> bool \<Rightarrow> nat \<Rightarrow> nat \<Rightarrow> snap list \<Rightarrow> string" where
  "log_bytes E ns a s fi d0 o0 [] = []"
| "log_bytes E ns a s fi d0 o0 (e # es) =
     snap_bytes E ns a s fi d0 o0 e @ log_bytes E ns a s False (fst e) (fst (snd e)) es"

text \<open>The last position of a log.\<close>

fun log_pos :: "nat \<Rightarrow> nat \<Rightarrow> snap list \<Rightarrow> nat \<times> nat" where
  "log_pos d0 o0 [] = (d0, o0)"
| "log_pos d0 o0 (e # es) = log_pos (fst e) (fst (snd e)) es"

text \<open>
  A log is well-formed after \<open>d0\<close> and \<open>o0\<close> for an output of length \<open>n\<close> and the names \<open>ns\<close>: the
  output only grows, every snapshot moves on, and a name belongs to a snapshot that moves
  in the input, and is what the input has just before it.
\<close>

fun log_ok :: "string list \<Rightarrow> string \<Rightarrow> string \<Rightarrow> nat \<Rightarrow> nat \<Rightarrow> snap list \<Rightarrow> bool" where
  "log_ok ns a s d0 o0 [] \<longleftrightarrow> d0 \<le> length a"
| "log_ok ns a s d0 o0 ((d, p, nm) # es) \<longleftrightarrow>
     d0 \<le> d \<and>
     (case nm of None \<Rightarrow> True
      | Some x \<Rightarrow> x \<in> set ns \<and> src_delta s o0 p \<noteq> (0, 0) \<and> suffix x (take p s)) \<and>
     log_ok ns a s d p es"

lemma log_pos_append: "log_pos d0 o0 (xs @ [e]) = (fst e, fst (snd e))"
  by (induction xs arbitrary: d0 o0) simp_all

lemma log_bytes_append:
  "log_bytes E ns a s fi d0 o0 (xs @ [e]) =
     log_bytes E ns a s fi d0 o0 xs @
     (case log_pos d0 o0 xs of (d, p) \<Rightarrow> snap_bytes E ns a s (fi \<and> xs = []) d p e)"
  by (induction xs arbitrary: fi d0 o0) simp_all

lemma log_ok_bound: "log_ok ns a s d0 o0 xs \<Longrightarrow> d0 \<le> fst (log_pos d0 o0 xs) \<and> fst (log_pos d0 o0 xs) \<le> length a"
  by (induction ns a s d0 o0 xs rule: log_ok.induct) auto

lemma log_ok_append:
  "log_ok ns a s d0 o0 (xs @ [(d, p, nm)]) \<longleftrightarrow>
     log_ok ns a s d0 o0 xs \<and> d \<le> length a \<and>
     (case log_pos d0 o0 xs of (d', p') \<Rightarrow> log_ok ns a s d' p' [(d, p, nm)])"
  by (induction xs arbitrary: d0 o0) (auto dest: log_ok_bound split: option.split)

text \<open>A longer output and a longer name table do not change what is there.\<close>

lemma line_col_eq0: "line_col t = (0, 0) \<longleftrightarrow> t = []"
proof (cases t rule: rev_cases)
  case (snoc u c)
  then show ?thesis by (cases "c = CHR 0x0A") (simp_all add: line_col_def count_nl_def)
qed (simp add: line_col_def count_nl_def)

lemma find_index_append: "x \<in> set ns \<Longrightarrow> find_index x (ns @ ms) = find_index x ns"
  by (induction ns) auto

lemma find_index_Some: "x \<in> set ns \<Longrightarrow> \<exists>i. find_index x ns = Some i \<and> i < length ns \<and> ns ! i = x"
  by (induction ns) auto

lemma log_ok_mono:
  "log_ok ns a s d0 o0 xs \<Longrightarrow> log_ok (ns @ ms) (a @ b) s d0 o0 xs"
  by (induction ns a s d0 o0 xs rule: log_ok.induct) (auto split: option.splits)

lemma log_bytes_mono:
  "log_ok ns a s d0 o0 xs \<Longrightarrow> log_bytes E (ns @ ms) (a @ b) s fi d0 o0 xs = log_bytes E ns a s fi d0 o0 xs"
proof (induction xs arbitrary: fi d0 o0)
  case (Cons e es)
  obtain d p nm where e: "e = (d, p, nm)" by (metis prod_cases3)
  with Cons.prems have es: "log_ok ns a s d p es" and "d0 \<le> d" by auto
  then have "d \<le> length a" using log_ok_bound [OF es] by simp
  then have "take (d - d0) (drop d0 (a @ b)) = take (d - d0) (drop d0 a)"
    using \<open>d0 \<le> d\<close> by simp
  moreover have "nm = Some x \<Longrightarrow> find_index x (ns @ ms) = find_index x ns" for x
    using Cons.prems e by (simp add: find_index_append)
  ultimately have "snap_bytes E (ns @ ms) (a @ b) s fi d0 o0 e = snap_bytes E ns a s fi d0 o0 e"
    by (auto simp: snap_bytes_def e split: option.split)
  with Cons.IH [OF es] show ?case by (simp add: e)
qed simp

section \<open>The invariant of the recorder\<close>

context position_ext
begin

definition recorded :: "('l, 'p) ctx \<Rightarrow> snap list \<Rightarrow> bool" where
  "recorded c log \<longleftrightarrow>
     cache_of (inp c) (line_cache c) \<and>
     log_ok (names c) (acc c) (inp c) 0 0 log \<and>
     off (lp_dst c) = fst (log_pos 0 0 log) \<and>
     lp_src c = line_col (take (snd (log_pos 0 0 log)) (inp c)) \<and>
     mappings c = log_bytes E (names c) (acc c) (inp c) True 0 0 log"

lemma recorded_off: "recorded c log \<Longrightarrow> off (lp_dst c) \<le> length (acc c)"
  unfolding recorded_def using log_ok_bound by fastforce

lemma recorded_push: "recorded c log \<Longrightarrow> recorded (c\<lparr>acc := acc c @ t\<rparr>) log"
  using log_ok_mono [of "names c" "acc c" "inp c" 0 0 log "[]" t]
    log_bytes_mono [of "names c" "acc c" "inp c" 0 0 log E "[]" t True]
  by (simp add: recorded_def)

lemma recorded_init: "recorded (init_ctx E s) []"
  by (simp add: recorded_def init_ctx_def cache_new off_default line_col_def count_nl_def)

text \<open>What \<open>snapshot_pos\<close> does, in one equation for each case.\<close>

lemma snapshot_pos_result:
  assumes "recorded c log" "snapshot_pos E n c = Inr (x, c')"
    and "line_col (drop (off (lp_dst c)) (acc c)) = (dl, dc)"
    and "line_col (take n (inp c)) = (l, k)" "lp_src c = (l0, k0)"
  shows "x = Some () \<and>
    (let c1 = c\<lparr>line_cache := snd (lc_run E (line_cache c) n)\<rparr>;
         sl = int l - int l0; sc = int k - int k0
     in if dl = 0 \<and> dc = 0 \<and> sl = 0 \<and> sc = 0 then c' = c1
        else c' = c1\<lparr>mappings := mappings c @ segment_bytes E (mappings c) dl dc sl sc,
                     lp_src := (l, k), lp_dst := snd (pt_update E (lp_dst c) (acc c) (length (acc c)))\<rparr>)"
proof -
  obtain cache' where run: "lc_run E (line_cache c) n = ((l, k), cache')"
    using assms(1,4) cache_pos [of "inp c" "line_cache c" n]
    by (cases "lc_run E (line_cache c) n") (simp add: recorded_def)
  obtain p' where upd: "pt_update E (lp_dst c) (acc c) (length (acc c)) = (Some (int dl, int dc), p')"
    using upd_delta [OF recorded_off [OF assms(1)]] assms(3)
    by (cases "pt_update E (lp_dst c) (acc c) (length (acc c))") simp
  show ?thesis
    using assms(2)
    by (auto simp: snapshot_pos_def put_mappings_def i64_try_from_def u32_try_from_def bind_apply tm_simps
      run upd assms(5) Let_def split: if_splits)
qed

end

text \<open>The encoder of numbers and a reader for it.\<close>

locale source_map_ext = position_ext E cache_of off + codec: vlq_codec "vlq_encode E" dec
  for E :: "('l, 'p) ext" and cache_of :: "string \<Rightarrow> 'l \<Rightarrow> bool" and off :: "'p \<Rightarrow> nat"
    and dec :: "string \<Rightarrow> (int \<times> string) option"
begin

lemma snap_bytes_nonempty: "snap_bytes E ns a s fi d0 o0 e \<noteq> []"
  by (auto simp: snap_bytes_def codec.enc_nonempty split: prod.split)

lemma log_bytes_Nil: "log_bytes E ns a s fi d0 o0 es = [] \<longleftrightarrow> es = []"
  by (cases es) (simp_all add: snap_bytes_nonempty)

lemma recorded_pos:
  assumes "recorded c log" "snapshot_pos E n c = Inr (x, c')"
  defines "log' \<equiv> log @ [(length (acc c), n, None)]"
  shows "x = Some () \<and> names c' = names c \<and> acc c' = acc c \<and> inp c' = inp c \<and>
    lp_src c' = line_col (take n (inp c)) \<and> off (lp_dst c') = length (acc c) \<and>
    (recorded c' log' \<or> (recorded c' log \<and> lp_src c = line_col (take n (inp c))))"
proof -
  obtain dl dc where dst: "line_col (drop (off (lp_dst c)) (acc c)) = (dl, dc)" by fastforce
  obtain l k where src: "line_col (take n (inp c)) = (l, k)" by fastforce
  obtain l0 k0 where lp: "lp_src c = (l0, k0)" by fastforce
  obtain d p where pos: "log_pos 0 0 log = (d, p)" by fastforce
  have rec: "cache_of (inp c) (line_cache c)" "log_ok (names c) (acc c) (inp c) 0 0 log"
    "off (lp_dst c) = d" "line_col (take p (inp c)) = (l0, k0)"
    "mappings c = log_bytes E (names c) (acc c) (inp c) True 0 0 log"
    using assms(1) lp pos by (simp_all add: recorded_def)
  have d: "d \<le> length (acc c)" using recorded_off [OF assms(1)] rec(3) by simp
  have cache: "cache_of (inp c) (snd (lc_run E (line_cache c) n))" by (rule cache_run [OF rec(1)])
  note res = snapshot_pos_result [OF assms(1,2) dst src lp]
  show ?thesis
  proof (cases "dl = 0 \<and> dc = 0 \<and> int l - int l0 = 0 \<and> int k - int k0 = 0")
    case True
    then have "c' = c\<lparr>line_cache := snd (lc_run E (line_cache c) n)\<rparr>" using res by simp
    moreover have "d = length (acc c)" using True dst d rec(3) line_col_eq0 [of "drop d (acc c)"] by simp
    ultimately show ?thesis using True rec res cache lp src pos by (simp add: recorded_def)
  next
    case False
    have c': "c' = c\<lparr>line_cache := snd (lc_run E (line_cache c) n),
        mappings := mappings c @ segment_bytes E (mappings c) dl dc (int l - int l0) (int k - int k0),
        lp_src := (l, k), lp_dst := snd (pt_update E (lp_dst c) (acc c) (length (acc c)))\<rparr>"
      using res False by (simp only: Let_def if_False)
    have "mappings c' = log_bytes E (names c) (acc c) (inp c) True 0 0 log'"
      using d dst rec(3) src rec(4)
      by (simp add: c' log'_def log_bytes_append pos snap_bytes_def segment_bytes_def src_delta_def
        rec(5) log_bytes_Nil)
    moreover have "log_ok (names c) (acc c) (inp c) 0 0 log'"
      using rec(2) d by (simp add: log'_def log_ok_append pos)
    moreover have "off (lp_dst c') = length (acc c)" using off_update rec(3) d by (simp add: c')
    ultimately show ?thesis
      using res cache src by (simp add: c' recorded_def log'_def log_pos_append)
  qed
qed

text \<open>A name is added to the snapshot taken last.\<close>

lemma recorded_name:
  assumes rec: "recorded c (log @ [(d, p, None)])"
    and step: "record_name E (o1, p) c = Inr (u, c')"
    and moved: "src_delta (inp c) (snd (log_pos 0 0 log)) p \<noteq> (0, 0)"
  shows "inp c' = inp c \<and> (\<exists>x. recorded c' (log @ [(d, p, Some x)]))"
proof -
  from step obtain x idx c1 where x: "str_slice (inp c) (o1, p) = Some x"
    and i: "intern_name x c = Inr (idx, c1)" and c': "c' = c1\<lparr>mappings := mappings c1 @ vlq_encode E (int idx)\<rparr>"
    by (auto simp: record_name_def put_mappings_def i64_try_from_def bind_eq_Inr tm_simps split: option.splits if_splits)
  obtain ms where c1: "c1 = c\<lparr>names := names c @ ms\<rparr>" "x \<in> set (names c @ ms)"
    "find_index x (names c @ ms) = Some idx"
  proof (cases "find_index x (names c)")
    case None
    have "find_index x (ns @ [x]) = Some (length ns)" if "find_index x ns = None" for ns
      using that by (induction ns) (auto split: if_splits)
    with None i that [of "[x]"] show ?thesis by (auto simp: intern_name_def bind_eq_Inr tm_simps)
  next
    case (Some j)
    have "x \<in> set ns" if "find_index x ns = Some j" for ns and j
      using that by (induction ns arbitrary: j) (auto split: if_splits)
    with Some i that [of "[]"] show ?thesis by (auto simp: intern_name_def bind_eq_Inr tm_simps)
  qed
  have "suffix x (take p (inp c))"
  proof -
    have "x = take (p - o1) (drop o1 (inp c))" "o1 \<le> p"
      using x by (auto simp: str_slice_def split: if_splits)
    then have "take p (inp c) = take o1 (inp c) @ x"
      by (metis le_add_diff_inverse take_add)
    then show ?thesis by (simp add: suffix_def)
  qed
  obtain d' p' where pos: "log_pos 0 0 log = (d', p')" by fastforce
  have ok: "log_ok (names c) (acc c) (inp c) 0 0 log" "d \<le> length (acc c)" "d' \<le> d"
    and maps: "mappings c = log_bytes E (names c) (acc c) (inp c) True 0 0 (log @ [(d, p, None)])"
    using rec pos by (auto simp: recorded_def log_ok_append)
  have "log_ok (names c @ ms) (acc c) (inp c) 0 0 (log @ [(d, p, Some x)])"
    using log_ok_mono [OF ok(1), of ms "[]"] ok c1(2) moved \<open>suffix x (take p (inp c))\<close>
    by (simp add: log_ok_append pos)
  moreover have "mappings c @ vlq_encode E (int idx) =
      log_bytes E (names c @ ms) (acc c) (inp c) True 0 0 (log @ [(d, p, Some x)])"
    using log_bytes_mono [OF ok(1), of E ms "[]" True]
    by (simp add: maps log_bytes_append pos snap_bytes_def c1(3) split: prod.split)
  ultimately have "recorded c' (log @ [(d, p, Some x)])"
    using rec by (simp add: recorded_def c' c1 log_pos_append)
  then show ?thesis by (auto simp: c' c1)
qed

end

section \<open>The invariant along a translation\<close>

definition in_range :: "string \<Rightarrow> text_range \<Rightarrow> bool" where
  "in_range s r \<longleftrightarrow> fst r < snd r \<and> snd r \<le> length s"

lemma line_col_moves: "in_range s r \<Longrightarrow> line_col (take (fst r) s) \<noteq> line_col (take (snd r) s)"
proof -
  assume r: "in_range s r"
  define t where "t = take (snd r - fst r) (drop (fst r) s)"
  have "snd r = fst r + (snd r - fst r)" using r by (simp add: in_range_def)
  then have t: "take (snd r) s = take (fst r) s @ t" unfolding t_def by (metis take_add)
  have "t \<noteq> []" using r by (simp add: t_def in_range_def)
  show ?thesis
  proof (cases "count_nl t = 0")
    case True
    then have "\<forall>c \<in> set (rev t). c \<noteq> CHR 0x0A" by (auto simp: count_nl_def filter_empty_conv)
    then have "takeWhile (\<lambda>c. c \<noteq> CHR 0x0A) (rev t @ u) = rev t @ takeWhile (\<lambda>c. c \<noteq> CHR 0x0A) u" for u
      by (subst takeWhile_append2) auto
    then show ?thesis using \<open>t \<noteq> []\<close> by (simp add: t line_col_def)
  next
    case False
    then show ?thesis by (simp add: t line_col_def count_nl_def)
  qed
qed

text \<open>Every node and every identifier covers a part of the input.\<close>

fun ranges_ok :: "string \<Rightarrow> node \<Rightarrow> bool" where
  "ranges_ok s (Node m p) \<longleftrightarrow>
     in_range s (m_rng m) \<and> (\<forall>i \<in> own_idents p. in_range s (id_rng i)) \<and>
     (\<forall>x \<in> subnodes p. ranges_ok s x)"

context source_map_ext
begin

definition rec_inv :: "string \<Rightarrow> ('l, 'p) ctx \<Rightarrow> bool" where
  "rec_inv s c \<longleftrightarrow> inp c = s \<and> (\<exists>log. recorded c log)"

lemma rec_inv_pos: "tm_rel (rec_inv s) (\<lambda>_ _. True) (\<lambda>_. True) (snapshot_pos E n)"
proof (intro tm_relI conjI TrueI)
  fix c x c' assume c: "rec_inv s c" "snapshot_pos E n c = Inr (x, c')"
  then obtain log where "recorded c log" "inp c = s" by (auto simp: rec_inv_def)
  with recorded_pos [OF _ c(2)] show "rec_inv s c'" unfolding rec_inv_def by metis
qed

lemma rec_inv_ident:
  assumes r: "in_range s r"
  shows "tm_rel (rec_inv s) (\<lambda>_ _. True) (\<lambda>_. True) (snapshot_ident E r (push t))"
proof (intro tm_relI conjI TrueI)
  fix c x c' assume c: "rec_inv s c" "snapshot_ident E r (push t) c = Inr (x, c')"
  then obtain log where log: "recorded c log" "inp c = s" by (auto simp: rec_inv_def)
  from c(2) obtain s1 c1 s2 c3 where c1: "snapshot_pos E (fst r) c = Inr (s1, c1)"
    and c3: "snapshot_pos E (snd r) (c1\<lparr>acc := acc c1 @ t\<rparr>) = Inr (s2, c3)"
    and c': "(if s1 \<noteq> None \<and> s2 \<noteq> None then record_name E r else skip) c3 = Inr ((), c')"
    by (auto simp: snapshot_ident_def bind_eq_Inr tm_simps)
  note p1 = recorded_pos [OF log(1) c1]
  then obtain log1 where log1: "recorded c1 log1" by blast
  let ?c2 = "c1\<lparr>acc := acc c1 @ t\<rparr>"
  note rec2 = recorded_push [OF log1, of t]
  note p2 = recorded_pos [OF rec2 c3]
  have src: "lp_src ?c2 = line_col (take (fst r) s)" using p1 log(2) by simp
  have "lp_src ?c2 \<noteq> line_col (take (snd r) (inp ?c2))"
    using line_col_moves [OF r] p1 log(2) by simp
  then have rec3: "recorded c3 (log1 @ [(length (acc ?c2), snd r, None)])" using p2 by blast
  have "line_col (take (snd (log_pos 0 0 log1)) s) = line_col (take (fst r) s)"
    using rec2 src p1 log(2) by (simp add: recorded_def)
  then have moved: "src_delta (inp c3) (snd (log_pos 0 0 log1)) (snd r) \<noteq> (0, 0)"
    using line_col_moves [OF r] p1 p2 log(2) by (auto simp: src_delta_def prod_eq_iff)
  have "record_name E (fst r, snd r) c3 = Inr ((), c')" using c' p1 p2 by simp
  from recorded_name [OF rec3 this moved] p1 p2 log(2) show "rec_inv s c'"
    by (auto simp: rec_inv_def)
qed

sublocale rec: ctx_rel E "rec_inv s" "\<lambda>_ _. True" "\<lambda>_ _. True" "\<lambda>_. True" "ranges_ok s" "in_range s" for s
proof unfold_locales
  show "tm_rel (rec_inv s) (\<lambda>_ _. True) (\<lambda>_. True) (push t)" for t
    unfolding push_def by (rule tm_rel_modify) (auto simp: rec_inv_def intro: recorded_push)
  show "tm_rel (rec_inv s) (\<lambda>_ _. True) (\<lambda>_. True) (snapshot_pos E n)" for n by (rule rec_inv_pos)
  show "tm_rel (rec_inv s) (\<lambda>_ _. True) (\<lambda>_. True) (snapshot_ident E r (push t))" if "in_range s r" for r t
    using that by (rule rec_inv_ident)
  show "tm_rel (rec_inv s) (\<lambda>_ _. True) (\<lambda>_. True) (push_var vn categ)" for vn categ
    unfolding push_var_def by (rule tm_rel_modify) (auto simp: rec_inv_def recorded_def)
  show "tm_rel (rec_inv s) (\<lambda>_ _. True) (\<lambda>_. True) (scoped m)"
    if "tm_rel (rec_inv s) (\<lambda>_ _. True) (\<lambda>_. True) m" for m
    using that by (rule scoped_rel) (auto simp: rec_inv_def recorded_def)
  show "tm_rel (rec_inv s) (\<lambda>_ _. True) (\<lambda>_. True) (in_with m)"
    if "tm_rel (rec_inv s) (\<lambda>_ _. True) (\<lambda>_. True) m" for m
    using that by (rule in_with_rel) (auto simp: rec_inv_def recorded_def)
  show "in_range s (text_range n)" if "ranges_ok s n" for n using that by (cases n) simp
qed auto

end

end
