(* ===== verification/Map_Decode.thy ===== *)
theory Map_Decode
  imports Map_Log
begin

text \<open>
  A reader for the \<open>mappings\<close> of a source map, and that it recovers the snapshots. Semicolons
  separate output lines, commas segments; a segment has one, four or five numbers. The reader
  adds the first four to the segment before, as the format of source maps says, and returns the
  fifth as it stands. In the format the fifth number, the name, is relative to the name before as
  well; the recorder writes the plain index, and that is what is shown here. A reader that follows
  the format in this point too finds the same positions, but adds up the indices.
\<close>

section \<open>The reader\<close>

definition is_sep :: "char \<Rightarrow> bool" where
  "is_sep c \<longleftrightarrow> c = CHR '';'' \<or> c = CHR '',''"

text \<open>At most \<open>n\<close> numbers, up to a separator or the end.\<close>

fun read_fields :: "(string \<Rightarrow> (int \<times> string) option) \<Rightarrow> nat \<Rightarrow> string \<Rightarrow> (int list \<times> string) option" where
  "read_fields dec n [] = Some ([], [])"
| "read_fields dec n (c # cs) =
     (if is_sep c then Some ([], c # cs)
      else (case n of
              0 \<Rightarrow> None
            | Suc k \<Rightarrow>
                (case dec (c # cs) of
                   None \<Rightarrow> None
                 | Some (i, s) \<Rightarrow> map_option (\<lambda>(is, r). (i # is, r)) (read_fields dec k s))))"

text \<open>
  A decoded segment: line and column in the output, line and column in the input, and the
  fifth number. The state is the position before, the numbers are added to it.
\<close>

type_synonym mapping = "(int \<times> int) \<times> (int \<times> int) \<times> int option"

fun decode ::
  "(string \<Rightarrow> (int \<times> string) option) \<Rightarrow> nat \<Rightarrow> int \<times> int \<Rightarrow> int \<times> int \<Rightarrow> string \<Rightarrow> mapping list option" where
  "decode dec n dst src [] = Some []"
| "decode dec 0 dst src (c # cs) = None"
| "decode dec (Suc n) (dl, dc) (sl, sc) (c # cs) =
     (if c = CHR '';'' then decode dec n (dl + 1, 0) (sl, sc) cs
      else if c = CHR '','' then decode dec n (dl, dc) (sl, sc) cs
      else (case read_fields dec 5 (c # cs) of
              None \<Rightarrow> None
            | Some (fs, r) \<Rightarrow>
                (case fs of
                   [x] \<Rightarrow> map_option (Cons ((dl, dc + x), (sl, sc), None)) (decode dec n (dl, dc + x) (sl, sc) r)
                 | [x, _, y, z] \<Rightarrow>
                     map_option (Cons ((dl, dc + x), (sl + y, sc + z), None))
                       (decode dec n (dl, dc + x) (sl + y, sc + z) r)
                 | [x, _, y, z, i] \<Rightarrow>
                     map_option (Cons ((dl, dc + x), (sl + y, sc + z), Some i))
                       (decode dec n (dl, dc + x) (sl + y, sc + z) r)
                 | _ \<Rightarrow> None)))"

definition decode_mappings :: "(string \<Rightarrow> (int \<times> string) option) \<Rightarrow> string \<Rightarrow> mapping list option" where
  "decode_mappings dec s = decode dec (length s) (0, 0) (0, 0) s"

section \<open>Reading a log\<close>

definition pos_of :: "string \<Rightarrow> nat \<Rightarrow> int \<times> int" where
  "pos_of t n = map_prod int int (line_col (take n t))"

text \<open>What the reader is to find for a snapshot.\<close>

definition snap_mapping :: "string list \<Rightarrow> string \<Rightarrow> string \<Rightarrow> snap \<Rightarrow> mapping" where
  "snap_mapping ns a s e = (case e of (d, p, nm) \<Rightarrow>
     (pos_of a d, pos_of s p, map_option (\<lambda>x. int (the (find_index x ns))) nm))"

lemma line_col_append:
  "line_col (u @ t) =
     (case (line_col u, line_col t) of ((l, c), (l', c')) \<Rightarrow> (l + l', if l' = 0 then c + c' else c'))"
proof (cases "count_nl t = 0")
  case True
  then have "\<forall>c \<in> set (rev t). c \<noteq> CHR 0x0A" by (auto simp: count_nl_def filter_empty_conv)
  then have "takeWhile (\<lambda>c. c \<noteq> CHR 0x0A) (rev t @ v) = rev t @ takeWhile (\<lambda>c. c \<noteq> CHR 0x0A) v" for v
    by (subst takeWhile_append2) auto
  note tw = this
  have "length (takeWhile (\<lambda>c. c \<noteq> CHR 0x0A) (rev t)) = length t"
    using arg_cong [OF tw [of "[]"], of length] by simp
  with tw [of "rev u"] True show ?thesis by (simp add: line_col_def count_nl_def)
next
  case False
  then obtain c where "c \<in> set (rev t)" "\<not> c \<noteq> CHR 0x0A" by (auto simp: count_nl_def filter_empty_conv)
  then have "takeWhile (\<lambda>c. c \<noteq> CHR 0x0A) (rev t @ rev u) = takeWhile (\<lambda>c. c \<noteq> CHR 0x0A) (rev t)"
    by (rule takeWhile_append1)
  with False show ?thesis by (simp add: line_col_def count_nl_def)
qed

definition sep_start :: "string \<Rightarrow> bool" where
  "sep_start r = (case r of [] \<Rightarrow> True | c # _ \<Rightarrow> is_sep c)"

context source_map_ext
begin

lemma enc_Cons: obtains c cs where "vlq_encode E i = c # cs" "\<not> is_sep c"
  using codec.enc_nonempty [of i] codec.enc_sep [of _ i]
  by (cases "vlq_encode E i") (auto simp: is_sep_def)

lemma read_fields_concat:
  "sep_start r \<Longrightarrow> length fs \<le> n \<Longrightarrow>
   read_fields dec n (concat (map (vlq_encode E) fs) @ r) = Some (fs, r)"
proof (induction fs arbitrary: n)
  case Nil
  then show ?case by (cases r) (simp_all add: sep_start_def)
next
  case (Cons i fs)
  then obtain k where n: "n = Suc k" by (cases n) auto
  obtain c cs where c: "vlq_encode E i = c # cs" "\<not> is_sep c" by (rule enc_Cons)
  show ?case
    using Cons n c codec.dec_enc [of i "concat (map (vlq_encode E) fs) @ r"] by simp
qed

text \<open>The numbers of a snapshot.\<close>

definition snap_fields :: "string list \<Rightarrow> string \<Rightarrow> string \<Rightarrow> nat \<Rightarrow> nat \<Rightarrow> snap \<Rightarrow> int list" where
  "snap_fields ns a s d0 o0 e = (case e of (d, p, nm) \<Rightarrow>
     [int (snd (line_col (take (d - d0) (drop d0 a))))] @
     (if src_delta s o0 p \<noteq> (0, 0) then [0, fst (src_delta s o0 p), snd (src_delta s o0 p)] else []) @
     (case nm of None \<Rightarrow> [] | Some x \<Rightarrow> [int (the (find_index x ns))]))"

lemma snap_bytes_fields:
  "snap_bytes E ns a s fi d0 o0 (d, p, nm) =
     (let dl = fst (line_col (take (d - d0) (drop d0 a)))
      in replicate dl (CHR '';'') @ (if dl = 0 \<and> \<not> fi then '','' else []) @
         concat (map (vlq_encode E) (snap_fields ns a s d0 o0 (d, p, nm))))"
  by (auto simp: snap_bytes_def snap_fields_def Let_def split: prod.split option.split)

lemma decode_semicolons:
  "decode dec (n + k) (dl, dc) src (replicate k (CHR '';'') @ r) =
     decode dec n (dl + int k, if k = 0 then dc else 0) src r"
proof (induction k arbitrary: dl dc)
  case (Suc k)
  then show ?case by (cases src) (simp add: algebra_simps)
qed simp

text \<open>One snapshot; the reader needs at most one unit of fuel for a byte.\<close>

lemma decode_snap:
  assumes fuel: "length (snap_bytes E ns a s fi d0 o0 (d, p, nm) @ r) \<le> n" and sep: "sep_start r"
    and ok: "log_ok ns a s d0 o0 [(d, p, nm)]"
  shows "\<exists>n' \<ge> length r. decode dec n (pos_of a d0) (pos_of s o0) (snap_bytes E ns a s fi d0 o0 (d, p, nm) @ r) =
    map_option (Cons (snap_mapping ns a s (d, p, nm))) (decode dec n' (pos_of a d) (pos_of s p) r)"
proof -
  obtain k x where kx: "line_col (take (d - d0) (drop d0 a)) = (k, x)" by fastforce
  obtain l c where lc: "line_col (take d0 a) = (l, c)" by fastforce
  let ?fs = "snap_fields ns a s d0 o0 (d, p, nm)"
  let ?body = "concat (map (vlq_encode E) ?fs) @ r"
  let ?comma = "if k = 0 \<and> \<not> fi then '','' else []"
  have bytes: "snap_bytes E ns a s fi d0 o0 (d, p, nm) @ r = replicate k (CHR '';'') @ ?comma @ ?body"
    by (simp add: snap_bytes_fields kx)
  have "d = d0 + (d - d0)" using ok by simp
  then have "take d a = take d0 a @ take (d - d0) (drop d0 a)" by (metis take_add)
  then have pd: "pos_of a d = (int (l + k), (if k = 0 then int c else 0) + int x)"
    by (simp add: pos_of_def line_col_append kx lc)
  obtain b bs where b: "?body = b # bs" "\<not> is_sep b"
    by (rule enc_Cons [of "hd ?fs"]) (auto simp: snap_fields_def)
  have "concat (map (vlq_encode E) ?fs) \<noteq> []" by (simp add: snap_fields_def codec.enc_nonempty)
  then have "length r < length ?body" by simp
  then have r: "length r \<le> length bs" by (simp only: b(1) list.size)
  define m where "m = n - k - length ?comma - 1"
  have len: "n = (Suc m + length ?comma) + k" "length r \<le> m"
    using fuel r unfolding bytes b(1) by (auto simp: m_def)
  obtain sl sc where sls: "pos_of s o0 = (sl, sc)" by fastforce
  let ?dst = "(int (l + k), if k = 0 then int c else 0)"
  have "decode dec n (pos_of a d0) (pos_of s o0) (replicate k (CHR '';'') @ ?comma @ ?body) =
      decode dec (Suc m + length ?comma) ?dst (pos_of s o0) (?comma @ ?body)"
    unfolding len(1) using decode_semicolons [of "Suc m + length ?comma" k "int l" "int c"]
    by (simp only: pos_of_def lc map_prod_simp of_nat_add)
  also have "\<dots> = decode dec (Suc m) ?dst (pos_of s o0) ?body" by (simp add: sls)
  also have "\<dots> = map_option (Cons (snap_mapping ns a s (d, p, nm))) (decode dec m (pos_of a d) (pos_of s p) r)"
  proof -
    have f: "read_fields dec 5 ?body = Some (?fs, r)"
      by (rule read_fields_concat [OF sep]) (simp add: snap_fields_def split: option.split)
    have src: "pos_of s p = (sl + fst (src_delta s o0 p), sc + snd (src_delta s o0 p))"
      using sls by (simp add: pos_of_def src_delta_def map_prod_def split: prod.splits)
    have nc: "b \<noteq> CHR '';''" "b \<noteq> CHR '',''" using b(2) by (simp_all add: is_sep_def)
    show ?thesis
      using ok f unfolding b(1) sls
      by (cases nm; cases "src_delta s o0 p = (0, 0)")
        (simp_all add: nc snap_fields_def kx snap_mapping_def src pd del: read_fields.simps)
  qed
  finally show ?thesis using len(2) unfolding bytes by blast
qed

lemma snap_sep_start: "sep_start (snap_bytes E ns a s False d0 o0 e @ r)"
proof (cases e)
  case (fields d p nm)
  then show ?thesis
    by (cases "fst (line_col (take (d - d0) (drop d0 a)))")
      (simp_all add: snap_bytes_fields sep_start_def is_sep_def)
qed

lemma decode_log:
  assumes "length (log_bytes E ns a s fi d0 o0 log) \<le> n" "log_ok ns a s d0 o0 log"
  shows "decode dec n (pos_of a d0) (pos_of s o0) (log_bytes E ns a s fi d0 o0 log) =
    Some (map (snap_mapping ns a s) log)"
  using assms
proof (induction log arbitrary: fi d0 o0 n)
  case (Cons e es)
  obtain d p nm where e: "e = (d, p, nm)" by (metis prod_cases3)
  let ?r = "log_bytes E ns a s False d p es"
  have ok: "log_ok ns a s d0 o0 [(d, p, nm)]" "log_ok ns a s d p es"
    using Cons.prems(2) log_ok_bound [of ns a s d p es] by (auto simp: e)
  have sep: "sep_start ?r"
    by (cases es) (auto simp: snap_sep_start, simp add: sep_start_def)
  have "length (snap_bytes E ns a s fi d0 o0 (d, p, nm) @ ?r) \<le> n" using Cons.prems(1) by (simp add: e)
  from decode_snap [OF this sep ok(1)] obtain n' where n': "length ?r \<le> n'"
    "decode dec n (pos_of a d0) (pos_of s o0) (snap_bytes E ns a s fi d0 o0 (d, p, nm) @ ?r) =
     map_option (Cons (snap_mapping ns a s (d, p, nm))) (decode dec n' (pos_of a d) (pos_of s p) ?r)"
    by blast
  with Cons.IH [OF n'(1) ok(2)] show ?case by (simp add: e)
qed simp

text \<open>So the reader recovers the log from the mappings of a context.\<close>

lemma decode_recorded:
  assumes "recorded c log"
  shows "decode_mappings dec (mappings c) = Some (map (snap_mapping (names c) (acc c) (inp c)) log)"
proof -
  have "pos_of t 0 = (0, 0)" for t by (simp add: pos_of_def line_col_def count_nl_def)
  then show ?thesis
    using assms decode_log [of "names c" "acc c" "inp c" True 0 0 log]
    by (simp add: recorded_def decode_mappings_def)
qed

text \<open>A longer output does not move the recorded places.\<close>

lemma snap_mapping_mono:
  assumes "log_ok ns a s d0 o0 log"
  shows "map (snap_mapping ns (a @ b) s) log = map (snap_mapping ns a s) log"
  using assms
proof (induction ns a s d0 o0 log rule: log_ok.induct)
  case (2 ns a s d0 o0 d p nm es)
  then have "d \<le> length a" using log_ok_bound [of ns a s d p es] by simp
  then have "pos_of (a @ b) d = pos_of a d" by (simp add: pos_of_def)
  with 2 show ?case by (simp add: snap_mapping_def)
qed simp

lemma translate_log:
  assumes "translate E s nm = Translated js mp" "ranges_ok s (snd (rnix_parse E s))"
  obtains ns maps log where "mp = json_to_string E (source_map_json nm ns maps)"
    "log_ok ns js s 0 0 log" "decode_mappings dec maps = Some (map (snap_mapping ns js s) log)"
proof -
  obtain errs root where root: "rnix_parse E s = (errs, root)" by fastforce
  with assms(1) obtain c maps where c: "translate_node E (mksctx Nothing Want) root (init_ctx E s) = Inr ((), c)"
    and maps: "from_utf8 (mappings c) = Some maps" "js = acc c @ '';''"
      "mp = json_to_string E (source_map_json nm (names c) maps)"
    by (auto simp: translate_def split: if_splits sum.splits fail.splits option.splits)
  have init: "rec_inv s (init_ctx E s)" using recorded_init [of s] by (auto simp: rec_inv_def init_ctx_def)
  have rel: "tm_rel (rec_inv s) (\<lambda>_ _. True) (\<lambda>_. True) (translate_node E (mksctx Nothing Want) root)"
    using assms(2) root by (intro rec.rel_translate_node) simp
  have "rec_inv s c" using tm_rel_Inr [OF rel c init] by simp
  then obtain log where log: "recorded c log" "inp c = s" by (auto simp: rec_inv_def)
  then have ok: "log_ok (names c) (acc c) s 0 0 log" by (simp add: recorded_def)
  have "mappings c = maps" using maps(1) by (simp add: from_utf8_def split: if_splits)
  with decode_recorded [OF log(1)] log(2)
  have "decode_mappings dec maps = Some (map (snap_mapping (names c) js s) log)"
    by (simp add: snap_mapping_mono [OF ok] maps(2))
  moreover have "log_ok (names c) js s 0 0 log"
    using log_ok_mono [OF ok, of "[]" "'';''"] by (simp add: maps(2))
  ultimately show thesis using maps(3) that by blast
qed

end

interpretation ref_map: source_map_ext "ref_ext root" "\<lambda>s l. l = s" "\<lambda>p. p" ref_unvlq for root
  by unfold_locales
    (auto simp: ref_ext_def ref_update_def ref_codec.dec_enc ref_codec.enc_nonempty ref_codec.enc_ascii
      dest: ref_codec.enc_sep split: prod.split)

end
