(* ===== verification/Bounds.thy ===== *)
theory Bounds
  imports Map_Log
begin

text \<open>
  Machine integers. The recorder converts positions and name indices to \<open>i64\<close> and the distances
  in the output to \<open>u32\<close>, and panics when a number does not fit. The offsets of the parser are
  \<open>u32\<close>, so an input has less than \<open>2 ^ 32\<close> bytes; for such an input every number that is
  converted to \<open>i64\<close> fits: positions are bounded by the length of the input, and the name table
  has at most one entry for every slice of the input.
\<close>

section \<open>Bounds for positions and names\<close>

lemma line_col_bound: "fst (line_col t) \<le> length t" "snd (line_col t) \<le> length t"
  using length_takeWhile_le [of _ "rev t"] by (simp_all add: line_col_def count_nl_def)

lemma line_col_take_bound:
  assumes "line_col (take n s) = (l, k)" shows "l \<le> length s" "k \<le> length s"
  using line_col_bound [of "take n s"] assms by simp_all

lemma str_slice_sublist: "str_slice s r = Some t \<Longrightarrow> sublist t s"
  unfolding str_slice_def
  by (auto split: if_splits prod.splits intro: sublist_order.order_trans [OF sublist_take sublist_drop])

lemma slices_bound:
  assumes "distinct ts" "\<forall>t \<in> set ts. sublist t s" "length s < 2 ^ 32"
  shows "length ts < 2 ^ 63"
proof -
  have "length ts = card (set ts)" using assms(1) by (simp add: distinct_card)
  also have "\<dots> \<le> card (set (sublists s))" by (rule card_mono) (use assms(2) in auto)
  also have "\<dots> \<le> length (sublists s)" by (rule card_length)
  also have "\<dots> = Suc (length s * Suc (length s) div 2)" by simp
  also have "\<dots> \<le> Suc ((2 ^ 32 - 1) * 2 ^ 32 div 2)"
    using assms(3) by (intro Suc_le_mono [THEN iffD2] div_le_mono mult_le_mono) simp_all
  also have "\<dots> < 2 ^ 63" by simp
  finally show ?thesis .
qed

section \<open>The invariant\<close>

definition long_output :: "('l, 'p) ext \<Rightarrow> node \<Rightarrow> fail \<Rightarrow> bool" where
  "long_output E root e =
     (case e of Err _ \<Rightarrow> True | Panic msg \<Rightarrow> msg = ''u32::try_from'' \<or> may_panic E msg root)"

context position_ext
begin

definition fits :: "string \<Rightarrow> ('l, 'p) ctx \<Rightarrow> bool" where
  "fits s c \<longleftrightarrow> length s < 2 ^ 32 \<and> inp c = s \<and> cache_of s (line_cache c) \<and>
     fst (lp_src c) \<le> length s \<and> snd (lp_src c) \<le> length s \<and>
     distinct (names c) \<and> (\<forall>t \<in> set (names c). sublist t s)"

lemma i64_fits: "m \<le> length s \<Longrightarrow> length s < 2 ^ 32 \<Longrightarrow> i64_try_from m = ret (int m)"
  by (simp add: i64_try_from_def)

lemma fits_pos: "tm_rel (fits s) stack_eq (long_output E root) (snapshot_pos E n)"
proof (rule tm_relI)
  fix c assume c: "fits s c"
  obtain l k cache' where run: "lc_run E (line_cache c) n = ((l, k), cache')" by (metis prod.exhaust)
  have lk: "line_col (take n s) = (l, k)" and cache: "cache_of s cache'"
    using c cache_pos [of s "line_cache c" n] cache_run [of s "line_cache c" n] run by (simp_all add: fits_def)
  note b = line_col_take_bound [OF lk]
  have small: "length s < 2 ^ 32" using c by (simp add: fits_def)
  have conv: "i64_try_from l = ret (int l)" "i64_try_from k = ret (int k)"
    "i64_try_from (fst (lp_src c)) = ret (int (fst (lp_src c)))"
    "i64_try_from (snd (lp_src c)) = ret (int (snd (lp_src c)))"
    using c b by (simp_all add: i64_fits [OF _ small] fits_def)
  show "long_output E root e" if "snapshot_pos E n c = Inl e" for e
    using that
    by (auto simp: snapshot_pos_def put_mappings_def bind_apply tm_simps run conv u32_try_from_def
      long_output_def Let_def split: if_splits option.splits prod.splits)
  show "fits s c' \<and> stack_eq c c'" if "snapshot_pos E n c = Inr (x, c')" for x c'
    using that c cache b
    by (auto simp: snapshot_pos_def put_mappings_def bind_apply tm_simps run conv u32_try_from_def
      fits_def stack_eq_def Let_def split: if_splits option.splits prod.splits)
qed

lemma fits_record:
  assumes "str_slice s r \<noteq> None" shows "tm_rel (fits s) stack_eq (long_output E root) (record_name E r)"
proof (rule tm_relI)
  fix c assume c: "fits s c"
  obtain t where t: "str_slice s r = Some t" using assms by blast
  let ?ns = "if t \<in> set (names c) then names c else names c @ [t]"
  obtain k c1 where k: "intern_name t c = Inr (k, c1)" "k < length ?ns" "c1 = c\<lparr>names := ?ns\<rparr>"
  proof (cases "find_index t (names c)")
    case None
    then have "t \<notin> set (names c)" by (rule find_index_None)
    with None that show thesis by (simp add: intern_name_def bind_apply tm_simps)
  next
    case (Some k)
    then have "k < length (names c)" "names c ! k = t" by (auto dest: find_index_nth)
    moreover from this have "t \<in> set (names c)" by auto
    ultimately show thesis using that Some by (simp add: intern_name_def bind_apply tm_simps)
  qed
  have c1: "fits s c1" using c str_slice_sublist [OF t] by (auto simp: fits_def k(3))
  then have "length ?ns < 2 ^ 63"
    by (intro slices_bound [of _ s]) (auto simp: fits_def k(3) split: if_splits)
  with k(2) have "i64_try_from k c1 = Inr (int k, c1)" by (simp add: i64_try_from_def tm_simps)
  moreover have "inp c = s" using c by (simp add: fits_def)
  ultimately have run: "record_name E r c = Inr ((), c1\<lparr>mappings := mappings c1 @ vlq_encode E (int k)\<rparr>)"
    using t k(1) by (simp add: record_name_def put_mappings_def bind_apply tm_simps)
  show "long_output E root e" if "record_name E r c = Inl e" for e using that run by simp
  show "fits s c' \<and> stack_eq c c'" if "record_name E r c = Inr (x, c')" for x c'
    using that run c1 by (auto simp: fits_def stack_eq_def k(3))
qed

lemma fits_push: "tm_rel (fits s) stack_eq (long_output E root) (push t)"
  unfolding push_def by (rule tm_rel_modify) (simp add: fits_def stack_eq_def)

lemma fits_ident:
  assumes "str_slice s r \<noteq> None"
  shows "tm_rel (fits s) stack_eq (long_output E root) (snapshot_ident E r (push t))"
proof -
  have pre: "preorder_rel (stack_eq :: ('l, 'p) ctx \<Rightarrow> _)" by unfold_locales (simp_all add: stack_eq_def)
  note rules = preorder_rel.rel_bind [OF pre] preorder_rel.rel_ret [OF pre]
  show ?thesis
    unfolding snapshot_ident_def
    by (intro rules fits_pos fits_push) (auto intro: rules fits_record [OF assms])
qed

sublocale bound: ctx_rel E "fits s" stack_eq stack_ext "long_output E root" "panics_in E s root"
    "\<lambda>r. str_slice s r \<noteq> None" for s root
proof unfold_locales
  show "tm_rel (fits s) stack_eq (long_output E root) (push t)" for t by (rule fits_push)
  show "tm_rel (fits s) stack_eq (long_output E root) (snapshot_pos E n)" for n by (rule fits_pos)
  show "tm_rel (fits s) stack_eq (long_output E root) (snapshot_ident E r (push t))"
    if "str_slice s r \<noteq> None" for r t using that by (rule fits_ident)
  show "long_output E root (Panic msg)"
    if "panics_in E s root (Node m p)" "\<not> m_trivia m" "panic_message E p = Some msg" for m p msg
    using panics_in_msg [OF that] by (simp add: long_output_def)
  show "tm_rel (fits s) stack_eq (long_output E root) (scoped m)" if "tm_rel (fits s) stack_ext (long_output E root) m" for m
    using that by (rule scoped_rel) (auto simp: fits_def stack_ext_def stack_eq_def prefix_def)
  show "tm_rel (fits s) stack_eq (long_output E root) (in_with m)" if "tm_rel (fits s) stack_eq (long_output E root) m" for m
    using that by (rule in_with_rel) (auto simp: fits_def stack_eq_def)
qed (auto simp: fits_def long_output_def stack_eq_def stack_ext_def prefix_def push_var_def
    intro!: tm_rel_modify intro: panics_in_sub dest: panics_in_slices)

lemma fits_init: "length s < 2 ^ 32 \<Longrightarrow> fits s (init_ctx E s)"
  by (simp add: fits_def init_ctx_def cache_new)

lemma run_panic:
  assumes "slices_ok s root" "length s < 2 ^ 32"
    and "translate_node E sctx root (init_ctx E s) = Inl (Panic msg)"
  shows "msg = ''u32::try_from'' \<or> may_panic E msg root"
proof -
  have "panics_in E s root root" using assms(1) by (simp add: panics_in_def)
  from tm_rel_Inl [OF bound.rel_translate_node [OF this] assms(3) fits_init [OF assms(2)]]
  show ?thesis by (simp add: long_output_def)
qed

end

end
