(* ===== verification/Frontend.thy ===== *)
theory Frontend
  imports Translate
begin

text \<open>
  The two programs around the library: the command line tool \<open>src/main.rs\<close> and the
  WebAssembly bindings \<open>wasm/src/lib.rs\<close>.

  What the tool does to the outside world is the list of the output operations it
  attempts, in order. Whether an operation succeeds, and what standard input and the
  files hold, is the operating system's choice: the record \<open>os\<close>.
\<close>

section \<open>Input and output\<close>

type_synonym io_error = string

datatype event =
    WriteFile string string
  | StdoutAll string
  | Println string
  | Eprintln string

text \<open>\<open>Ok(())\<close>, \<open>Err(io::Error)\<close> from \<open>main\<close>, and a panic.\<close>

datatype exit = ExitOk | ExitIo io_error | ExitPanic string

text \<open>\<open>outcome os h e\<close>: what becomes of the operation \<open>e\<close> after the operations \<open>h\<close>.\<close>

record os =
  stdin_bytes :: "io_error + string"
  file_bytes :: "string \<Rightarrow> io_error + string"
  outcome :: "event list \<Rightarrow> event \<Rightarrow> io_error option"

text \<open>\<open>read_to_string\<close>: bytes that are not UTF-8 are an error.\<close>

definition read_to_string :: "io_error + string \<Rightarrow> io_error + string" where
  "read_to_string r =
     (case r of
        Inl e \<Rightarrow> Inl e
      | Inr bytes \<Rightarrow>
          (case from_utf8 bytes of
             None \<Rightarrow> Inl ''stream did not contain valid UTF-8''
           | Some s \<Rightarrow> Inr s))"

text \<open>\<open>write_all\<close> and \<open>fs::write\<close> are followed by \<open>?\<close>; the printing macros panic on an error.\<close>

definition failure :: "event \<Rightarrow> io_error \<Rightarrow> exit" where
  "failure e err =
     (case e of
        WriteFile _ _ \<Rightarrow> ExitIo err
      | StdoutAll _ \<Rightarrow> ExitIo err
      | Println _ \<Rightarrow> ExitPanic (''failed printing to stdout: '' @ err)
      | Eprintln _ \<Rightarrow> ExitPanic (''failed printing to stderr: '' @ err))"

text \<open>Operations in sequence: the first that fails ends the program.\<close>

fun perform :: "os \<Rightarrow> event list \<Rightarrow> event list \<Rightarrow> event list \<times> exit" where
  "perform os h [] = (h, ExitOk)"
| "perform os h (e # es) =
     (case outcome os h e of
        Some err \<Rightarrow> (h @ [e], failure e err)
      | None \<Rightarrow> perform os (h @ [e]) es)"

section \<open>The command line tool\<close>

definition usage_text :: string where
  "usage_text = ''USAGE: nix2js [INPUT_FILE [OUTPUT_FILE [OUT_SOURCE_MAP_FILE]]]''"

definition source_mapping_url :: string where
  "source_mapping_url = CHR 0x0A # ''//# sourceMappingURL=''"

definition output_events :: "string list \<Rightarrow> string \<Rightarrow> string \<Rightarrow> event list" where
  "output_events args js mp =
     (case args of
        [] \<Rightarrow> [StdoutAll js]
      | outpf # rest \<Rightarrow>
          (case rest of
             [] \<Rightarrow> [WriteFile outpf js]
           | mapf # _ \<Rightarrow> [WriteFile mapf mp, WriteFile outpf (js @ source_mapping_url @ mapf)]))"

definition main :: "('l, 'p) ext \<Rightarrow> os \<Rightarrow> string list \<Rightarrow> event list \<times> exit" where
  "main E os args =
     (case args of
        [] \<Rightarrow>
          (case read_to_string (stdin_bytes os) of
             Inl e \<Rightarrow> ([], ExitIo e)
           | Inr input \<Rightarrow>
               (case translate E input ''<stdin>'' of
                  Translated x _ \<Rightarrow> perform os [] [StdoutAll x]
                | Errors xs \<Rightarrow> perform os [] (map Eprintln xs)
                | Panicked e \<Rightarrow> ([], ExitPanic e)))
      | inpf # args' \<Rightarrow>
          if inpf = ''--help'' then perform os [] [Println usage_text]
          else
            (case read_to_string (file_bytes os inpf) of
               Inl e \<Rightarrow> ([], ExitIo e)
             | Inr input \<Rightarrow>
                 (case translate E input inpf of
                    Errors xs \<Rightarrow> perform os [] (map Eprintln xs)
                  | Translated js mp \<Rightarrow> perform os [] (output_events args' js mp)
                  | Panicked e \<Rightarrow> ([], ExitPanic e))))"

section \<open>The WebAssembly bindings\<close>

datatype 'a js_result = JsOk 'a | JsErr string | JsPanic string

definition wasm_translate ::
  "('l, 'p) ext \<Rightarrow> string \<Rightarrow> string \<Rightarrow> (string \<times> string) js_result" where
  "wasm_translate E s inp_name =
     (case translate E s inp_name of
        Translated js mp \<Rightarrow> JsOk (js, mp)
      | Errors errors \<Rightarrow> JsErr (join [CHR 0x0A] errors)
      | Panicked e \<Rightarrow> JsPanic e)"

definition inline_url :: string where
  "inline_url = CHR 0x0A # ''//# sourceMappingURL=data:application/json;charset=utf-8;base64,''"

definition wasm_translate_inline_srcmap ::
  "('l, 'p) ext \<Rightarrow> string \<Rightarrow> string \<Rightarrow> string js_result" where
  "wasm_translate_inline_srcmap E s inp_name =
     (case translate E s inp_name of
        Translated js mp \<Rightarrow> JsOk (js @ inline_url @ base64_encode E mp)
      | Errors errors \<Rightarrow> JsErr (join [CHR 0x0A] errors)
      | Panicked e \<Rightarrow> JsPanic e)"

section \<open>Sequences of output operations\<close>

text \<open>
  The tool attempts a prefix of the operations; it ends well iff it has attempted all
  of them and all succeeded.
\<close>

lemma perform_prefix: "perform os h es = (t, x) \<Longrightarrow> \<exists>ys. t = h @ ys \<and> prefix ys es"
proof (induction es arbitrary: h)
  case (Cons e es)
  show ?case
  proof (cases "outcome os h e")
    case None
    with Cons.prems have "perform os (h @ [e]) es = (t, x)" by simp
    from Cons.IH [OF this] obtain ys where "t = h @ e # ys" "prefix ys es" by auto
    then show ?thesis by (intro exI [of _ "e # ys"]) simp
  next
    case (Some err)
    with Cons.prems show ?thesis by auto
  qed
qed simp

lemma perform_ok: "perform os h es = (t, ExitOk) \<Longrightarrow> t = h @ es"
  by (induction es arbitrary: h) (fastforce simp: failure_def split: option.splits event.splits)+

lemma perform_prints:
  "\<forall>h e. outcome os h (Eprintln e) = None \<Longrightarrow> perform os h (map Eprintln es) = (h @ map Eprintln es, ExitOk)"
  by (induction es arbitrary: h) simp_all

text \<open>An operation that is not the last one attempted has succeeded.\<close>

lemma perform_succeeded:
  assumes "perform os h es = (t, x)" "prefix (h @ ys @ [e]) t" "h @ ys @ [e] \<noteq> t"
  shows "outcome os (h @ ys) e = None"
  using assms
proof (induction es arbitrary: h ys)
  case (Cons a es)
  show ?case
  proof (cases "outcome os h a")
    case (Some err)
    with Cons.prems show ?thesis by (cases ys) (auto simp: prefix_def)
  next
    case None
    with Cons.prems(1) have p: "perform os (h @ [a]) es = (t, x)" by simp
    with perform_prefix obtain zs where zs: "t = h @ a # zs" by fastforce
    show ?thesis
    proof (cases ys)
      case Nil
      with zs Cons.prems(2) None show ?thesis by (auto simp: prefix_def)
    next
      case (Cons b bs)
      with zs Cons.prems(2) have "b = a" by (auto simp: prefix_def)
      with Cons.IH [OF p, of bs] Cons.prems(2,3) Cons show ?thesis by simp
    qed
  qed
qed (auto simp: prefix_def)

end
