(* ===== verification/Samples.thy ===== *)
theory Samples
  imports Translate Reference_Ext
begin

text \<open>
  Concrete syntax trees, as \<open>rnix\<close> builds them, and their translation with the functions of
  \<open>Reference_Ext\<close>. They are the inputs at which the general theorems are applied, and show
  the outputs that the documentation of single behaviours refers to.
\<close>

definition mt :: "nat \<Rightarrow> nat \<Rightarrow> meta" where
  "mt a b = Meta False (a, b) [] []"

definition nid :: "nat \<Rightarrow> nat \<Rightarrow> string \<Rightarrow> node" where
  "nid a b s = Node (mt a b) (PtIdent s)"

definition nint :: "nat \<Rightarrow> nat \<Rightarrow> int \<Rightarrow> node" where
  "nint a b i = Node (mt a b) (PtValue (Inr (VInteger i)))"

text \<open>The text of a result, or nothing.\<close>

fun js_of :: "translate_result \<Rightarrow> string option" where
  "js_of (Translated js _) = Some js"
| "js_of _ = None"

lemmas sample_defs = mt_def nid_def nint_def

section \<open>The identity function\<close>

definition id_src :: string where
  "id_src = ''x: x''"

definition id_tree :: node where
  "id_tree = Node (mt 0 4) (PtRoot (Some (Node (mt 0 4)
     (PtLambda (Some (nid 0 1 ''x'')) (Some (nid 3 4 ''x''))))))"

definition id_js :: string where
  "id_js = ''let nixOp=nixBlti.nixOp;let nixBltiRT=nixBlti.initRtDep(nixRt);let nixInScope=nixBlti.mkScopeWith();return (async nix__x=>((await nix__x)));''"

definition id_map :: string where
  "id_map = ref_json (source_map_json ''f'' [''x''] ''2G,O,MAACA,GAAE,O,MAACA'')"

lemma id_translated: "translate (ref_ext id_tree) id_src ''f'' = Translated id_js id_map"
  by code_simp

text \<open>The run of the translator behind it.\<close>

lemma id_run:
  obtains c where
    "translate_node (ref_ext id_tree) (mksctx Nothing Want) id_tree (init_ctx (ref_ext id_tree) id_src) = Inr ((), c)"
    "acc c @ '';'' = id_js"
proof -
  have "rnix_parse (ref_ext id_tree) id_src = ([], id_tree)" by (simp add: ref_ext_def)
  with id_translated that show thesis
    by (auto simp: translate_def split: sum.splits fail.splits option.splits)
qed

end
