(* ===== verification/Divergences.thy ===== *)
theory Divergences
  imports Samples Lexing
begin

text \<open>
  Outputs in which the translation departs from the meaning of the source program, each as
  the exact text that is written. The contexts hold the given variables only, so that the
  text is that of the expression alone.
\<close>

definition small_ctx :: "string \<Rightarrow> (string \<times> ident_categ) list \<Rightarrow> (string, nat) ctx" where
  "small_ctx s vs =
     \<lparr>inp = s, acc = [], vars = vs, with_stack = 0, names = [], mappings = [],
      line_cache = s, lp_src = (0, 0), lp_dst = 0\<rparr>"

text \<open>The text of an expression whose value is wanted, with the promise to be awaited.\<close>

definition awaited_js :: "string \<Rightarrow> (string \<times> ident_categ) list \<Rightarrow> node \<Rightarrow> string option" where
  "awaited_js s vs n =
     (case translate_node (ref_ext n) (mksctx Want Nothing) n (small_ctx s vs) of
        Inl _ \<Rightarrow> None
      | Inr (_, c) \<Rightarrow> Some (acc c))"

definition let_inherit_tree :: node where
  "let_inherit_tree = Node (mt 0 19)
     (PtLetIn (EntryHolder [] [Inherit None [Ident (mt 12 13) ''x'']]) (Some (nid 18 19 ''x'')))"

text \<open>\<open>let inherit x; in x\<close> inside a function of \<open>x\<close>: the new variable shadows the argument
  before it is read, so it is initialised with itself.\<close>

lemma let_inherit_self_assignment:
  "awaited_js ''let inherit x; in x'' [(''x'', LambdaArg)] let_inherit_tree =
     Some (''nixBlti.PLazy.from(async ()=>{let nix__x;nix__x=nix__x;return (await nix__x);})'')"
  by code_simp

definition if_not_tree :: node where
  "if_not_tree = Node (mt 0 19)
     (PtIfElse (Some (Node (mt 3 5) (PtUnaryOp Invert (Some (nid 4 5 ''x'')))))
       (Some (nint 11 12 1)) (Some (nint 18 19 2)))"

text \<open>\<open>if !x then 1 else 2\<close>: the condition is the promise that the operator returns; it is
  not awaited although the state asks for it, so the first branch is always taken.\<close>

lemma negation_not_awaited:
  "awaited_js ''if !x then 1 else 2'' [(''x'', LambdaArg)] if_not_tree =
     Some ''(await ((nixOp.u_Invert(nix__x))?(1):(2)))''"
  by code_simp

definition let_call_tree :: node where
  "let_call_tree = Node (mt 0 19)
     (PtApply
       (Some (Node (mt 0 17) (PtParen (Some (Node (mt 1 16)
         (PtLetIn (EntryHolder [KeyValue (5, 11) (Some [nid 5 6 ''f'']) (Some (nid 9 10 ''x''))] [])
           (Some (nid 15 16 ''f''))))))))
       (Some (nint 18 19 1)))"

text \<open>\<open>(let f = x; in f) 1\<close>: the function is wanted, but the code of the \<open>let\<close> is a \<open>PLazy\<close> that is
  not awaited, so the call is applied to a promise.\<close>

lemma let_result_not_awaited:
  "awaited_js ''(let f = x; in f) 1'' [(''x'', LambdaArg)] let_call_tree =
     Some ''(await (nixBlti.PLazy.from(async ()=>{let nix__f;nix__f=nix__x;return (await nix__f);}))(1))''"
  by code_simp

definition with_import_tree :: node where
  "with_import_tree = Node (mt 0 18) (PtRoot (Some (Node (mt 0 18)
     (PtWith
       (Some (Node (mt 5 15) (PtApply (Some (nid 5 11 ''import''))
         (Some (Node (mt 12 15) (PtValue (Inr (VPath ''Relative'' ''a''))))))))
       (Some (nint 17 18 1))))))"

text \<open>\<open>with import ./a; 1\<close> as a whole program: the namespace is awaited outside of any function, in
  the body that the runtime passes to \<open>new Function\<close>, where \<open>await\<close> is not allowed.\<close>

lemma with_awaits_outside_async:
  "js_of (translate (ref_ext with_import_tree) ''with import ./a; 1'' ''f'') =
     Some (js_prologue @ ''(async nixInScope=>(1))(nixBlti.mkScopeWith(nixInScope,(await (nixBltiRT.import)(nixRt.export('' @
       [CHR 0x22] @ ''Relative'' @ [CHR 0x22] @ '','' @ [CHR 0x22] @ ''a'' @ [CHR 0x22] @ '')))));'')"
  by code_simp

definition let_path_tree :: node where
  "let_path_tree = Node (mt 0 17)
     (PtLetIn (EntryHolder [KeyValue (4, 12) (Some [nid 4 5 ''a'', nid 6 7 ''b'']) (Some (nint 10 11 1))] [])
       (Some (nid 16 17 ''a'')))"

text \<open>\<open>let a.b = 1; in a\<close>: the value is merged into the variable \<open>a\<close>, which is declared and
  never given an object.\<close>

lemma let_path_merges_into_undefined:
  "awaited_js ''let a.b = 1; in a'' [] let_path_tree =
     Some (''nixBlti.PLazy.from(async ()=>{let nix__a;await nixOp._deepMerge(nix__a,1,'' @
       [CHR 0x22, CHR ''b'', CHR 0x22] @ '');return (await nix__a);})'')"
  by code_simp

text \<open>\<open>__foldl'\<close>: the name of the builtin is written as it is, with its apostrophe, which
  starts a string literal in JavaScript.\<close>

lemma foldl_breaks_lexing:
  "(foldl_name, AlBuiltin foldl_name) \<in> set DFL_VARS \<and>
   ident_text E foldl_name (AlBuiltin foldl_name) = ''nixBltiRT.foldl'' @ [CHR 0x27] \<and>
   \<not> js_balanced (ident_text E foldl_name (AlBuiltin foldl_name))"
proof -
  have "list_ex (\<lambda>p. p = (foldl_name, AlBuiltin foldl_name)) DFL_VARS" by code_simp
  then have "(foldl_name, AlBuiltin foldl_name) \<in> set DFL_VARS" by (auto simp: list_ex_iff)
  moreover have "ident_text E foldl_name (AlBuiltin foldl_name) = ''nixBltiRT.foldl'' @ [CHR 0x27]"
    by (simp add: ident_text_def foldl_name_def const_defs)
  ultimately show ?thesis by (simp add: js_balanced_def lex_defs)
qed

end
