(* ===== verification/Spec2Isabelle.thy ===== *)
theory Spec2Isabelle
  imports Await_Lazy Await_Positions Names Scope_Check Independence Brackets Map_Decode Bounds Frontend Samples Divergences
begin

text \<open>
  A verification of \<open>nix2js\<close>, a translator from the Nix expression language to JavaScript.

  \<^bold>\<open>The program.\<close> \<open>rnix\<close> parses an input to a syntax tree; \<open>translate\<close> (\<open>src/lib.rs\<close>) walks the
  tree with a mutable \<open>Context\<close> and writes JavaScript, together with a source map. Nix is lazy and
  the runtime is asynchronous, so the walk passes down whether the value of a node has to be
  awaited or delayed (\<open>src/helpers.rs\<close>); names are resolved in a stack of variables that starts
  with the builtins (\<open>src/consts.rs\<close>). A command line tool (\<open>src/main.rs\<close>) and a WebAssembly
  module (\<open>wasm/src/lib.rs\<close>) call \<open>translate\<close>.

  \<^bold>\<open>The model.\<close> One theory for each part, definitions in the order of the code:

  \<^item> \<open>Prelude\<close>: actions on a state that may return an error or panic (\<open>fail\<close>, \<open>bind\<close>, \<open>seqs\<close>), the
    operations on strings, and the judgement \<open>tm_rel\<close> for what an action does to the state.
    Strings are lists of bytes.
  \<^item> \<open>Consts\<close>: \<open>src/consts.rs\<close>, the names of the runtime and the default scope \<open>DFL_VARS\<close>.
  \<^item> \<open>Rnix_View\<close>: the syntax tree as the translator sees it through \<open>rnix\<close>, and the record \<open>ext\<close>, whose
    fields stand for the functions of other crates: the parser, \<open>serde_json\<close>, \<open>vlq\<close>, \<open>linetrack\<close>,
    \<open>base64\<close> and the debug output of a range. Every operation that uses one takes the record as argument.
  \<^item> \<open>Helpers\<close>: the await/lazy state, \<open>merge_sttr\<close>, \<open>lazyness_incoming\<close>, the context record \<open>ctx\<close>
    (field by field the struct \<open>Context\<close>), \<open>push\<close>, \<open>txtrng_to_lineno\<close>, \<open>rtv\<close>.
  \<^item> \<open>Source_Map\<close>: \<open>snapshot_pos\<close>, \<open>snapshot_ident\<close>, with the checked conversions to \<open>i64\<close> and \<open>u32\<close>.
  \<^item> \<open>Idents\<close>, \<open>Entries\<close>, \<open>Let_Scope\<close>, \<open>Translate\<close>: the methods of \<open>impl Context\<close> in \<open>src/lib.rs\<close>:
    identifiers and keys; \<open>key = value\<close> and \<open>inherit\<close>; \<open>translate_let\<close> with its three shapes of output;
    \<open>translate_node\<close>, one definition for each arm of its match, and \<open>translate\<close>. The methods below
    \<open>translate_node\<close> take it as the argument \<open>tn\<close>; the recursion is closed in \<open>Translate\<close> and ends because
    \<open>tn\<close> is called on proper subtrees only (\<open>translate_parsed_cong\<close>).
  \<^item> \<open>Frontend\<close>: \<open>main\<close> as the list of effects it performs on a system that may fail, and the exported
    functions of the WebAssembly module.

  \<^bold>\<open>The theorems.\<close>

  \<^item> \<open>Await_Lazy\<close>: the decisions of \<open>merge_sttr\<close>, and what nested calls of \<open>lazyness_incoming\<close> write.
  \<^item> \<open>Await_Positions\<close>: for which expressions a wanted \<open>await\<close> is written.
  \<^item> \<open>Names\<close>: resolution, the declared keys of a scope, the mangling of variables, the name table.
  \<^item> \<open>Frame\<close>, \<open>Frame_Instances\<close>: the locale \<open>ctx_rel\<close> asks of a relation on contexts that the elementary
    steps respect it, and concludes that \<open>translate_node\<close> does. Its interpretations: scopes are restored,
    buffers only grow, and every panic comes from a node of the tree or a position that does not fit.
  \<^item> \<open>Scoping\<close>, \<open>Decides\<close>, \<open>Scope_Check\<close>: a static scoping check, \<open>accepts\<close>, and the proof that the
    translator succeeds on exactly the trees that pass it.
  \<^item> \<open>Independence\<close>: two runs from contexts with the same scope write the same code, whatever is
    behind the recorder of the source map (locales \<open>code_env\<close>, \<open>code_step\<close>).
  \<^item> \<open>Lexing\<close>, \<open>Brackets\<close>: a scanner for JavaScript's brackets, strings and comments; the output passes it
    (locale \<open>js_text\<close>).
  \<^item> \<open>Map_Log\<close>, \<open>Map_Decode\<close>, \<open>Bounds\<close>: the bytes of the source map decode to the snapshots that were
    taken (locales \<open>position_ext\<close>, \<open>source_map_ext\<close>); no \<open>i64\<close> overflows.
  \<^item> \<open>Divergences\<close>: the output for single inputs on which it is not what is meant, evaluated.
  \<^item> This theory: the statements about \<open>translate\<close>, the tool and the module.

  \<^bold>\<open>Assumptions on other crates.\<close> \<open>json_lexical\<close>: \<open>serde_json\<close> writes strings as literals JavaScript reads
  the same way. \<open>position_ext\<close>: \<open>linetrack\<close> tells lines and columns. \<open>vlq_codec\<close>: what \<open>vlq\<close> writes can be
  read back, and is ASCII. On trees: \<open>slices_ok\<close>, \<open>ranges_ok\<close> and \<open>lex_ok\<close> say that ranges lie in the input
  and names are names of the language. \<open>Reference_Ext\<close> has an executable function for each of them that
  satisfies these laws (\<open>ref_codec\<close>, \<open>ref_js\<close>, \<open>ref_map\<close>), with which \<open>Samples\<close> evaluates the translator;
  the general theorems are applied there.

  \<^bold>\<open>Bounds and fuel.\<close> No function of the model runs on fuel; the reader of the source map in \<open>Map_Decode\<close>
  consumes at least one byte in each step and gets the length of the string as the number of steps.
  \<open>with_stack\<close>, a \<open>usize\<close>, is bounded by the depth of the tree, and a natural number in the model.
  \<open>sort_unstable_by_key\<close> is a stable sort in the model: the order of equal names is not determined by the
  code, and \<open>getkeys_spec\<close> does not depend on it; the range kept for a name that occurs twice does.

  \<^bold>\<open>Not modelled.\<close> The runtime library \<open>nix-builtins\<close> (TypeScript), so nothing is said about the values
  that the JavaScript computes; \<open>rnix\<close> and the other crates; the mock runtime, the examples, the tests and
  the build scripts; the derived traits \<open>Debug\<close> and \<open>Clone\<close>; the memory and time limits of the process.
\<close>

section \<open>The translator\<close>

text \<open>The mappings are ASCII if the encoder of numbers writes ASCII, so they are valid UTF-8.\<close>

lemma run_mappings_utf8:
  assumes ascii: "\<forall>i. is_ascii (vlq_encode E i)"
    and run: "translate_node E sctx root (init_ctx E s) = Inr (u, c)"
  shows "from_utf8 (mappings c) = Some (mappings c)"
proof (rule from_utf8_ascii)
  have "buffers_ok E (init_ctx E s)" by (simp add: buffers_ok_def init_ctx_def)
  then have "set (mappings c) \<subseteq> mapping_alphabet E"
    using tm_rel_Inr [OF grow.rel_translate_node run] by (simp add: buffers_ok_def)
  then show "is_ascii (mappings c)"
    using ascii unfolding is_ascii_def mapping_alphabet_def by fastforce
qed

text \<open>C5: Every panic of \<open>translate\<close> has one of two sources. Either a line or column number does not fit the
  integer type of the source map, or the tree contains a node that the translator cannot write: a kind
  of node that never stands as an expression, a path with an interpolation such as \<open>./a/${b}\<close>, or a
  float that JSON cannot represent; the message is that of this node. Nothing is asked of the tree but
  that its ranges are slices of the input.\<close>

theorem translate_panic_sources:
  assumes ascii: "\<forall>i. is_ascii (vlq_encode E i)"
    and slices: "slices_ok s (snd (rnix_parse E s))"
  shows "case translate E s nm of
      Panicked msg \<Rightarrow> position_overflow msg \<or> may_panic E msg (snd (rnix_parse E s))
    | _ \<Rightarrow> True"
proof -
  obtain errs root where root: "rnix_parse E s = (errs, root)" by fastforce
  let ?run = "translate_node E (mksctx Nothing Want) root (init_ctx E s)"
  have "panics_in E s root root" using slices root by (simp add: panics_in_def)
  then have "position_overflow msg \<or> may_panic E msg root" if "?run = Inl (Panic msg)" for msg
    using panic.rel_translate_node [THEN tm_rel_Inl, of E s root root "mksctx Nothing Want" "init_ctx E s"] that
    by (simp add: init_ctx_def benign_def)
  then show ?thesis
    using root run_mappings_utf8 [OF ascii, of "mksctx Nothing Want" root s]
    by (auto simp: translate_def split: sum.splits fail.splits option.splits translate_result.splits)
qed

lemma id_slices: "slices_ok id_src id_tree"
  by (simp add: id_tree_def id_src_def sample_defs own_idents_def subnodes_def cast_ident_def cast_pattern_def
    str_slice_def is_char_boundary_def is_cont_byte_def)

lemma id_no_panic: "\<not> may_panic E msg id_tree"
  by (simp add: id_tree_def sample_defs subnodes_def panic_message_def)

lemma id_parse: "snd (rnix_parse (ref_ext id_tree) id_src) = id_tree"
  by (simp add: ref_ext_def)

lemma id_short: "length id_src < 2 ^ 32"
  by (simp add: id_src_def)

lemma ref_ascii: "\<forall>i. is_ascii (vlq_encode (ref_ext root) i)"
  by (simp add: ref_ext_def ref_codec.enc_ascii)

theorem translate_panic_sources_witness:
  "case translate (ref_ext id_tree) id_src ''f'' of Panicked msg \<Rightarrow> position_overflow msg | _ \<Rightarrow> True"
  using translate_panic_sources [of "ref_ext id_tree" id_src "''f''", unfolded id_parse, OF ref_ascii id_slices]
  by (auto simp: id_no_panic split: translate_result.splits)

text \<open>C6: An input of less than \<open>2 ^ 32\<close> bytes, as the offsets of the parser demand, never overflows the
  64-bit integers of the recorder: besides the panics of single nodes, the only one left is that of a
  \<open>u32\<close>, for two snapshots with more than 4 GiB of output between them.\<close>

theorem translate_i64_never_overflows:
  assumes ascii: "\<forall>i. is_ascii (vlq_encode E i)"
    and pos: "position_ext E cache_of off"
    and slices: "slices_ok s (snd (rnix_parse E s))" and len: "length s < 2 ^ 32"
  shows "case translate E s nm of
      Panicked msg \<Rightarrow> msg = ''u32::try_from'' \<or> may_panic E msg (snd (rnix_parse E s))
    | _ \<Rightarrow> True"
proof -
  obtain errs root where root: "rnix_parse E s = (errs, root)" by fastforce
  let ?run = "translate_node E (mksctx Nothing Want) root (init_ctx E s)"
  have "msg = ''u32::try_from'' \<or> may_panic E msg root" if "?run = Inl (Panic msg)" for msg
    using position_ext.run_panic [OF pos _ len that] slices root by simp
  then show ?thesis
    using root run_mappings_utf8 [OF ascii, of "mksctx Nothing Want" root s]
    by (auto simp: translate_def split: sum.splits fail.splits option.splits translate_result.splits)
qed

theorem translate_i64_never_overflows_witness:
  "case translate (ref_ext id_tree) id_src ''f'' of Panicked msg \<Rightarrow> msg = ''u32::try_from'' | _ \<Rightarrow> True"
  using translate_i64_never_overflows [of "ref_ext id_tree" _ _ id_src "''f''", unfolded id_parse,
      OF ref_ascii ref_map.position_ext_axioms id_slices id_short]
  by (auto simp: id_no_panic split: translate_result.splits)

text \<open>C9: Translating a node leaves the variable stack and the \<open>with\<close> depth as they were.\<close>

theorem translate_node_restores_scope:
  assumes "translate_node E sctx n c = Inr (u, c')"
  shows "vars c' = vars c \<and> with_stack c' = with_stack c"
  using tm_rel_Inr [OF stack.rel_translate_node assms] by (simp add: stack_eq_def)

theorem translate_node_restores_scope_witness:
  "\<exists>c'. translate_node (ref_ext id_tree) (mksctx Nothing Want) id_tree (init_ctx (ref_ext id_tree) id_src) = Inr ((), c') \<and>
     vars c' = DFL_VARS \<and> with_stack c' = 0"
proof -
  obtain c where c: "translate_node (ref_ext id_tree) (mksctx Nothing Want) id_tree
    (init_ctx (ref_ext id_tree) id_src) = Inr ((), c)" by (rule id_run)
  from translate_node_restores_scope [OF c] c show ?thesis by (simp add: init_ctx_def)
qed

text \<open>C12: While a node is translated, the output, the mappings and the table of names only grow, and
  no name is entered twice.\<close>

theorem translate_node_appends:
  assumes "translate_node E sctx n c = Inr (u, c')"
    and "distinct (names c)" "set (mappings c) \<subseteq> mapping_alphabet E"
  shows "prefix (acc c) (acc c') \<and> prefix (mappings c) (mappings c') \<and> prefix (names c) (names c') \<and>
    distinct (names c')"
  using tm_rel_Inr [OF grow.rel_translate_node assms(1)] assms(2,3) by (simp add: grows_def buffers_ok_def)

theorem translate_node_appends_witness:
  "\<exists>c'. translate_node (ref_ext id_tree) (mksctx Nothing Want) id_tree (init_ctx (ref_ext id_tree) id_src) = Inr ((), c') \<and>
     prefix js_prologue (acc c') \<and> distinct (names c')"
proof -
  obtain c where c: "translate_node (ref_ext id_tree) (mksctx Nothing Want) id_tree
    (init_ctx (ref_ext id_tree) id_src) = Inr ((), c)" by (rule id_run)
  from translate_node_appends [OF c] c show ?thesis by (simp add: init_ctx_def)
qed

text \<open>C1: The JavaScript that \<open>translate\<close> returns is lexically well-formed: one line, every string
  literal closed, every bracket closed by its partner, no comment. This holds for every input whose
  names are Nix identifiers other than \<open>__foldl'\<close>, if \<open>serde_json\<close> writes strings as JavaScript
  literals.\<close>

theorem translate_js_balanced:
  assumes "json_lexical E" "lex_ok (snd (rnix_parse E s))" "translate E s nm = Translated js mp"
  shows "js_balanced js"
  using js_text.translate_balanced [OF js_text.intro] assms by blast

lemma id_lex_ok: "lex_ok id_tree"
  by (simp add: id_tree_def sample_defs own_idents_def subnodes_def cast_ident_def cast_pattern_def
    name_ok_def foldl_name_def nix_ident_char_def is_ascii_alphanumeric_def is_ascii_alphabetic_def)

theorem translate_js_balanced_witness: "js_balanced id_js"
  by (rule translate_js_balanced [OF ref_json_lexical _ id_translated]) (simp only: id_parse id_lex_ok)

text \<open>C2: A reader of the source map gets back what was recorded: the segments decode, in order, to
  the positions of certain prefixes of the output and certain offsets of the input; the output
  positions do not decrease, and a segment with a name lies at the end of that name in the input.
  The fifth number of such a segment is the plain index of the name in the table.\<close>

theorem translate_source_map_decodes:
  assumes "source_map_ext E cache_of off dec" "ranges_ok s (snd (rnix_parse E s))"
    and "translate E s nm = Translated js mp"
  shows "\<exists>ns maps log. mp = json_to_string E (source_map_json nm ns maps) \<and>
    log_ok ns js s 0 0 log \<and> decode_mappings dec maps = Some (map (snap_mapping ns js s) log)"
  using source_map_ext.translate_log [OF assms(1,3,2)] by metis

lemma id_ranges: "ranges_ok id_src id_tree"
  by (simp add: id_tree_def id_src_def sample_defs own_idents_def subnodes_def cast_ident_def cast_pattern_def
    in_range_def)

theorem translate_source_map_decodes_witness:
  "\<exists>ns maps log. id_map = json_to_string (ref_ext id_tree) (source_map_json ''f'' ns maps) \<and>
    log_ok ns id_js id_src 0 0 log \<and> decode_mappings ref_unvlq maps = Some (map (snap_mapping ns id_js id_src) log)"
  by (rule translate_source_map_decodes [OF ref_map.source_map_ext_axioms _ id_translated])
    (simp only: id_parse id_ranges)

text \<open>C7: The code of a node depends on the node and its scope only: from two contexts with the same
  input, variables and \<open>with\<close> depth the translation appends the same text, or reports the same error,
  unless one of the two panics.\<close>

theorem translate_node_context_free:
  assumes "inp c = inp d" "vars c = vars d" "with_stack c = with_stack d"
  shows "agree (acc c) (acc d) (translate_node E sctx n c) (translate_node E sctx n d)"
  by (rule simD [OF rerun.sim_node]) (simp add: assms same_scope_def)

theorem translate_node_context_free_witness:
  "agree js_prologue [] (translate_node (ref_ext id_tree) (mksctx Nothing Want) id_tree (init_ctx (ref_ext id_tree) id_src))
     (translate_node (ref_ext id_tree) (mksctx Nothing Want) id_tree ((init_ctx (ref_ext id_tree) id_src)\<lparr>acc := [], names := [''a'']\<rparr>))"
  using translate_node_context_free [of "init_ctx (ref_ext id_tree) id_src"
      "(init_ctx (ref_ext id_tree) id_src)\<lparr>acc := [], names := [''a'']\<rparr>"]
  by (simp add: init_ctx_def)

text \<open>C8: The source map has no influence on the code: with other encoders of numbers and other trackers
  of positions behind the recorder, \<open>translate\<close> returns the same JavaScript or the same errors, unless
  one of the two panics.\<close>

theorem translate_code_ignores_recorder:
  assumes "json_to_string E = json_to_string E'" "number_from_f64 E = number_from_f64 E'"
    and "range_debug E = range_debug E'" "rnix_parse E = rnix_parse E'"
  shows "same_result (translate E s nm) (translate E' s nm)"
  using code_env.same_code [OF code_env.intro] assms by blast

definition mute_ext :: "node \<Rightarrow> (string, nat) ext" where
  "mute_ext root = (ref_ext root)\<lparr>vlq_encode := (\<lambda>_. []), lc_run := (\<lambda>l _. ((0, 0), l)), pt_update := (\<lambda>p _ _. (None, p))\<rparr>"

theorem translate_code_ignores_recorder_witness:
  "same_result (Translated id_js id_map) (translate (mute_ext id_tree) id_src ''f'')"
  using translate_code_ignores_recorder [of "ref_ext id_tree" "mute_ext id_tree" id_src "''f''"] id_translated
  by (simp add: mute_ext_def)

text \<open>C11: If the value of an expression is wanted, its code starts with an \<open>await\<close> for the expressions
  of the shape \<open>Awaited\<close>, and does not for those of the shape \<open>Pending\<close>: the unary operators, \<open>with\<close>, and a
  \<open>let\<close> that becomes plain variables, although the code of these is a promise.\<close>

theorem wanted_await_written:
  assumes "translate_node E (mksctx Want Nothing) n c = Inr (u, c')"
  shows "\<exists>t. acc c' = acc c @ t \<and>
    (case await_shape (vars c) n of
       Awaited \<Rightarrow> prefix ''(await '' t
     | Pending \<Rightarrow> \<not> prefix ''(await '' t
     | Direct \<Rightarrow> True)"
proof -
  obtain t where "acc c' = acc c @ t" "shape_text (await_shape (vars c) n) t"
    using writes_node [of c n E] assms unfolding writes_def by blast
  then show ?thesis by (cases "await_shape (vars c) n") auto
qed

lemma wanted_ident: "awaited_js ''x'' [(''x'', LambdaArg)] (nid 0 1 ''x'') = Some ''(await nix__x)''"
  by code_simp

theorem wanted_await_written_witness:
  "\<exists>c'. translate_node (ref_ext (nid 0 1 ''x'')) (mksctx Want Nothing) (nid 0 1 ''x'') (small_ctx ''x'' [(''x'', LambdaArg)]) =
       Inr ((), c') \<and> prefix ''(await '' (acc c')"
proof -
  from wanted_ident obtain c' where c': "translate_node (ref_ext (nid 0 1 ''x'')) (mksctx Want Nothing) (nid 0 1 ''x'')
      (small_ctx ''x'' [(''x'', LambdaArg)]) = Inr ((), c')"
    unfolding awaited_js_def by (auto split: sum.splits)
  from wanted_await_written [OF c'] c' show ?thesis
    by (auto simp: small_ctx_def nid_def mt_def global_var_def lookup_var_def is_global_categ_def)
qed

text \<open>C13: The program that \<open>translate\<close> returns is the prologue, then exactly the code that its expression gets
  in any other context with the default scope, then a semicolon: the code may be written there after other
  output, with other names and mappings recorded before.\<close>

theorem translate_wraps_code:
  assumes "translate E s nm = Translated js mp"
    and "inp d = s" "vars d = DFL_VARS" "with_stack d = 0"
    and "translate_node E (mksctx Nothing Want) (snd (rnix_parse E s)) d = Inr (u, d')"
  shows "\<exists>code. acc d' = acc d @ code \<and> js = js_prologue @ code @ '';''"
proof -
  obtain errs root where root: "rnix_parse E s = (errs, root)" by fastforce
  have "same_scope (init_ctx E s) d" using assms(2-4) by (simp add: same_scope_def init_ctx_def)
  from simD [OF rerun.sim_node this, of E "mksctx Nothing Want" root] assms(1,5) root show ?thesis
    by (cases rule: agree_cases)
      (auto simp: translate_def init_ctx_def split: if_splits option.splits)
qed

definition bare_ctx :: "(string, nat) ctx" where
  "bare_ctx = (init_ctx (ref_ext id_tree) id_src)\<lparr>acc := [], names := [''y'']\<rparr>"

lemma id_bare_run:
  obtains c where "translate_node (ref_ext id_tree) (mksctx Nothing Want) id_tree bare_ctx = Inr ((), c)"
    "acc c = ''(async nix__x=>((await nix__x)))''"
proof -
  have "(case translate_node (ref_ext id_tree) (mksctx Nothing Want) id_tree bare_ctx of
      Inr (_, c) \<Rightarrow> acc c = ''(async nix__x=>((await nix__x)))'' | Inl _ \<Rightarrow> False)"
    by code_simp
  with that show thesis by (auto split: sum.splits)
qed

theorem translate_wraps_code_witness: "id_js = js_prologue @ ''(async nix__x=>((await nix__x)))'' @ '';''"
proof -
  obtain c where c: "translate_node (ref_ext id_tree) (mksctx Nothing Want) id_tree bare_ctx = Inr ((), c)"
    "acc c = ''(async nix__x=>((await nix__x)))''" by (rule id_bare_run)
  have "\<exists>code. acc c = acc bare_ctx @ code \<and> id_js = js_prologue @ code @ '';''"
    by (rule translate_wraps_code [OF id_translated])
      (simp_all add: id_parse c(1), simp_all add: bare_ctx_def init_ctx_def)
  with c(2) show ?thesis by (simp add: bare_ctx_def)
qed

section \<open>The programs around it\<close>

text \<open>C18: Given an input, an output and a source map file, the tool writes the source map first, and
  the JavaScript, with a reference to the map's file, only if that has succeeded; it ends well iff
  both writes succeed.\<close>

theorem main_writes_map_first:
  assumes "inpf \<noteq> ''--help''" "read_to_string (file_bytes os inpf) = Inr input"
    and "translate E input inpf = Translated js mp"
  shows "main E os (inpf # outpf # mapf # rest) =
    (let first = WriteFile mapf mp; second = WriteFile outpf (js @ source_mapping_url @ mapf)
     in case outcome os [] first of
          Some e \<Rightarrow> ([first], ExitIo e)
        | None \<Rightarrow> (case outcome os [first] second of
                      Some e \<Rightarrow> ([first, second], ExitIo e)
                    | None \<Rightarrow> ([first, second], ExitOk)))"
  using assms by (simp add: main_def output_events_def failure_def Let_def split: option.split)

definition sample_os :: os where
  "sample_os = \<lparr>stdin_bytes = Inr id_src, file_bytes = (\<lambda>_. Inr id_src), outcome = (\<lambda>_ _. None)\<rparr>"

lemma sample_read:
  "read_to_string (file_bytes sample_os p) = Inr id_src" "read_to_string (stdin_bytes sample_os) = Inr id_src"
  by (simp_all add: sample_os_def read_to_string_def id_src_def from_utf8_def)

theorem main_writes_map_first_witness:
  "main (ref_ext id_tree) sample_os [''f'', ''o'', ''m''] =
     ([WriteFile ''m'' id_map, WriteFile ''o'' (id_js @ source_mapping_url @ ''m'')], ExitOk)"
  using main_writes_map_first [of "''f''" sample_os id_src "ref_ext id_tree" id_js id_map "''o''" "''m''" "[]"]
  by (simp add: sample_read id_translated Let_def) (simp add: sample_os_def)

text \<open>Where the tool reads from, and the name it gives to the input.\<close>

definition input_of :: "os \<Rightarrow> string list \<Rightarrow> (io_error + string) \<times> string" where
  "input_of os args =
     (case args of [] \<Rightarrow> (stdin_bytes os, ''<stdin>'') | inpf # _ \<Rightarrow> (file_bytes os inpf, inpf))"

text \<open>C19: If the translation fails, the tool prints the errors to the standard error, all of them and in
  order, and nothing else: no file and no output is written, whether it reads the standard input or a
  file. It still ends with \<open>Ok\<close>, so the exit status does not tell that there is no output.\<close>

theorem main_reports_errors:
  assumes "take 1 args \<noteq> [''--help'']"
    and "read_to_string (fst (input_of os args)) = Inr input"
    and "translate E input (snd (input_of os args)) = Errors es" "\<forall>h e. outcome os h (Eprintln e) = None"
  shows "main E os args = (map Eprintln es, ExitOk)"
  using assms perform_prints [OF assms(4), of "[]" es]
  by (cases args) (simp_all add: main_def input_of_def)

definition free_tree :: node where
  "free_tree = nid 0 1 ''y''"

lemma free_errors: "translate (ref_ext free_tree) id_src nm = Errors [''line 0: unknown identifier y'']"
proof -
  have "translate_node (ref_ext free_tree) (mksctx Nothing Want) free_tree (init_ctx (ref_ext free_tree) id_src) =
      Inl (Err ''line 0: unknown identifier y'')" by code_simp
  then show ?thesis by (simp add: translate_def) (simp add: ref_ext_def)
qed

theorem main_reports_errors_witness:
  "main (ref_ext free_tree) sample_os [''f'', ''o''] = ([Eprintln ''line 0: unknown identifier y''], ExitOk) \<and>
   main (ref_ext free_tree) sample_os [] = ([Eprintln ''line 0: unknown identifier y''], ExitOk)"
  using main_reports_errors [of "[''f'', ''o'']" sample_os id_src "ref_ext free_tree", OF _ _ free_errors]
    main_reports_errors [of "[]" sample_os id_src "ref_ext free_tree", OF _ _ free_errors]
  by (simp add: input_of_def sample_read) (simp add: sample_os_def)

text \<open>C20: The tool reading from standard input and the WebAssembly function agree, if messages can be
  printed: where the function returns code, the tool writes that code to the standard output and its exit
  is that of the write; where the function returns an error, which is never empty, the tool prints the
  lines it was joined from, each of them, and ends with \<open>Ok\<close>; and they panic together.\<close>

theorem main_agrees_with_wasm:
  assumes "read_to_string (stdin_bytes os) = Inr input" "\<forall>h e. outcome os h (Eprintln e) = None"
  shows "case wasm_translate E input ''<stdin>'' of
      JsOk (js, _) \<Rightarrow> main E os [] =
        ([StdoutAll js], case outcome os [] (StdoutAll js) of None \<Rightarrow> ExitOk | Some e \<Rightarrow> ExitIo e)
    | JsErr msg \<Rightarrow> \<exists>es. es \<noteq> [] \<and> translate E input ''<stdin>'' = Errors es \<and>
        msg = join [CHR 0x0A] es \<and> main E os [] = (map Eprintln es, ExitOk)
    | JsPanic e \<Rightarrow> main E os [] = ([], ExitPanic e)"
proof (cases "translate E input ''<stdin>''")
  case (Translated js mp)
  then show ?thesis using assms(1) by (simp add: main_def wasm_translate_def failure_def split: option.split)
next
  case (Errors es)
  then have "es \<noteq> []"
    by (auto simp: translate_def split: prod.splits if_splits sum.splits fail.splits option.splits)
  with Errors perform_prints [OF assms(2), of "[]" es] assms(1) show ?thesis
    by (simp add: main_def wasm_translate_def)
next
  case (Panicked e)
  then show ?thesis using assms(1) by (simp add: main_def wasm_translate_def)
qed

theorem main_agrees_with_wasm_witness:
  "main (ref_ext free_tree) sample_os [] = ([Eprintln ''line 0: unknown identifier y''], ExitOk)"
  using main_agrees_with_wasm [of sample_os id_src "ref_ext free_tree", OF sample_read(2)]
  by (simp add: wasm_translate_def free_errors) (simp add: sample_os_def)

text \<open>C21: The output with an inline source map consists of the line of JavaScript that \<open>translate\<close>
  gives and a second line, the encoded map in the comment that announces it.\<close>

theorem inline_srcmap_two_lines:
  assumes "json_lexical E" "lex_ok (snd (rnix_parse E s))"
    and "wasm_translate_inline_srcmap E s nm = JsOk out"
  shows "\<exists>js mp. wasm_translate E s nm = JsOk (js, mp) \<and>
    takeWhile (\<lambda>c. c \<noteq> CHR 0x0A) out = js \<and>
    dropWhile (\<lambda>c. c \<noteq> CHR 0x0A) out = inline_url @ base64_encode E mp"
proof -
  obtain js mp where t: "translate E s nm = Translated js mp"
    and out: "out = js @ inline_url @ base64_encode E mp"
    using assms(3) by (auto simp: wasm_translate_inline_srcmap_def split: translate_result.splits)
  have "js_balanced js" using js_text.translate_balanced [OF js_text.intro] assms(1,2) t by blast
  then have "c \<noteq> CHR 0x0A" if "c \<in> set js" for c using js_balanced_one_line that by blast
  then have "takeWhile (\<lambda>c. c \<noteq> CHR 0x0A) out = js \<and>
      dropWhile (\<lambda>c. c \<noteq> CHR 0x0A) out = inline_url @ base64_encode E mp"
    by (simp add: out inline_url_def takeWhile_append dropWhile_append)
  with t show ?thesis by (simp add: wasm_translate_def)
qed

theorem inline_srcmap_two_lines_witness:
  "\<exists>js mp. wasm_translate (ref_ext id_tree) id_src ''f'' = JsOk (js, mp) \<and>
    takeWhile (\<lambda>c. c \<noteq> CHR 0x0A) (id_js @ inline_url @ id_map) = js \<and>
    dropWhile (\<lambda>c. c \<noteq> CHR 0x0A) (id_js @ inline_url @ id_map) =
      inline_url @ base64_encode (ref_ext id_tree) mp"
  by (rule inline_srcmap_two_lines [OF ref_json_lexical])
    (simp only: id_parse id_lex_ok,
     simp add: wasm_translate_inline_srcmap_def id_translated, simp add: ref_ext_def)

end
